theory Spec2Isabelle
  imports Complex_Main "HOL-Library.Multiset"
begin

section \<open>Neon Drift word runner: data model\<close>

text \<open>
  The program is a single React component file, \<^verbatim>\<open>src/App.tsx\<close>. Its pure helpers
  (\<^verbatim>\<open>clamp\<close>, \<^verbatim>\<open>parseLines\<close>, \<^verbatim>\<open>ensureStats\<close>, \<^verbatim>\<open>pickWeighted\<close>, \<^verbatim>\<open>pickChoices\<close>,
  \<^verbatim>\<open>mutateWord\<close>, \<^verbatim>\<open>similarChoices\<close>) are embedded as functions; the state updates made
  inside the component (\<^verbatim>\<open>applyAnswer\<close>, \<^verbatim>\<open>handleSelfRating\<close>, the timer and the
  session-end effect) are embedded as functions on the piece of state they update.

  JavaScript numbers are modelled exactly: counters, scores and timestamps as \<^typ>\<open>int\<close>,
  the mastery estimate and the sampling weights as \<^typ>\<open>rat\<close>. Values of
  \<^verbatim>\<open>Math.random()\<close> and the current time are explicit arguments.
\<close>

datatype Stage = Load | Setup | Play | Summary

datatype Difficulty = Easy | Normal | Hard

datatype SessionLength = Len5 | Len10 | Len20 | Zen

datatype Mode = ChoiceMode | TypeMode

datatype Rating = Know | Unsure | Neutral

record WordEntry =
  entry_id :: string
  word :: string
  hint :: "string option"

record WordStat =
  exposures :: int
  correct :: int
  incorrect :: int
  lastSeen :: int
  lastMiss :: int
  mastery :: rat

text \<open>
  \<^verbatim>\<open>SessionState\<close> also has fields \<^verbatim>\<open>correct\<close> and \<^verbatim>\<open>incorrect\<close>; they are
  \<open>correctCount\<close> and \<open>incorrectCount\<close> here, to keep them apart from the fields of
  \<^typ>\<open>WordStat\<close>.
\<close>

record SessionState =
  timeLeft :: int
  energy :: int
  score :: int
  streak :: int
  longestStreak :: int
  combo :: int
  correctCount :: int
  incorrectCount :: int

definition clamp :: "'a::linorder \<Rightarrow> 'a \<Rightarrow> 'a \<Rightarrow> 'a" where
  "clamp v lo hi = min hi (max lo v)"

section \<open>Session engine\<close>

text \<open>The state \<^verbatim>\<open>startSession\<close> installs; \<^verbatim>\<open>Number(sessionLength) * 60\<close> seconds, 0 in zen mode.\<close>

fun minutes :: "SessionLength \<Rightarrow> int" where
  "minutes Len5 = 5"
| "minutes Len10 = 10"
| "minutes Len20 = 20"
| "minutes Zen = 0"

definition startSession :: "SessionLength \<Rightarrow> SessionState" where
  "startSession len =
     \<lparr> timeLeft = (if len = Zen then 0 else minutes len * 60),
       energy = 100, score = 0, streak = 0, longestStreak = 0, combo = 1,
       correctCount = 0, incorrectCount = 0 \<rparr>"

text \<open>The updater \<^verbatim>\<open>applyAnswer\<close> passes to \<^verbatim>\<open>setSession\<close>.\<close>

definition applyAnswer_session :: "bool \<Rightarrow> SessionState \<Rightarrow> SessionState" where
  "applyAnswer_session isCorrect prev =
     (let streak' = (if isCorrect then streak prev + 1 else 0);
          longestStreak' = max (longestStreak prev) streak';
          combo' = (if isCorrect then clamp (1 + streak' div 3) 1 5 else 1);
          score' = score prev + (if isCorrect then 10 * combo' else 0);
          energy' = clamp (energy prev + (if isCorrect then 8 else -18)) 0 100
      in prev\<lparr> streak := streak', longestStreak := longestStreak', combo := combo',
               score := score', energy := energy',
               correctCount := correctCount prev + (if isCorrect then 1 else 0),
               incorrectCount := incorrectCount prev + (if isCorrect then 0 else 1) \<rparr>)"

text \<open>The one-second timer of a timed session.\<close>

definition tick :: "SessionState \<Rightarrow> SessionState" where
  "tick prev = (if timeLeft prev \<le> 1 then prev\<lparr> timeLeft := 0 \<rparr>
                else prev\<lparr> timeLeft := timeLeft prev - 1 \<rparr>)"

text \<open>
  The session-end effect: the stage after the effect has run (\<^verbatim>\<open>endSession\<close> sets the
  stage to \<^verbatim>\<open>"summary"\<close>).
\<close>

definition sessionEndEffect :: "Stage \<Rightarrow> SessionLength \<Rightarrow> SessionState \<Rightarrow> Stage" where
  "sessionEndEffect stage len s =
     (if stage \<noteq> Play then stage
      else if energy s \<le> 0 then Summary
      else if len \<noteq> Zen \<and> timeLeft s \<le> 0 then Summary
      else stage)"

datatype SessionEvent = Answered bool | Tick

fun sessionStep :: "SessionState \<Rightarrow> SessionEvent \<Rightarrow> SessionState" where
  "sessionStep s (Answered isCorrect) = applyAnswer_session isCorrect s"
| "sessionStep s Tick = tick s"

definition runSession :: "SessionLength \<Rightarrow> SessionEvent list \<Rightarrow> SessionState" where
  "runSession len evs = foldl sessionStep (startSession len) evs"

section \<open>List parser\<close>

text \<open>
  Strings are \<^typ>\<open>string\<close>, one \<^typ>\<open>char\<close> per code unit; the model covers
  the texts whose code units are below 256. \<^verbatim>\<open>String.prototype.trim\<close> strips white
  space and line terminators from both ends: among these code units tab, line feed,
  vertical tab, form feed, carriage return, space and no-break space.
  \<^verbatim>\<open>toLowerCase\<close> moves the letters A to Z and the capital letters of Latin-1
  (0xC0 to 0xDE without the multiplication sign 0xD7) up by 32.
\<close>

definition LF :: char where
  "LF = CHR 0x0A"

definition CR :: char where
  "CR = CHR 0x0D"

definition is_ws :: "char \<Rightarrow> bool" where
  "is_ws c \<longleftrightarrow>
     c = CHR 0x09 \<or> c = LF \<or> c = CHR 0x0B \<or> c = CHR 0x0C \<or> c = CR \<or> c = CHR '' ''
     \<or> c = CHR 0xA0"

definition trim :: "string \<Rightarrow> string" where
  "trim s = rev (dropWhile is_ws (rev (dropWhile is_ws s)))"

definition lower_char :: "char \<Rightarrow> char" where
  "lower_char c =
     (let n = (of_char c :: nat) in
      if 65 \<le> n \<and> n \<le> 90 \<or> 192 \<le> n \<and> n \<le> 222 \<and> n \<noteq> 215 then char_of (n + 32) else c)"

definition toLowerCase :: "string \<Rightarrow> string" where
  "toLowerCase s = map lower_char s"

text \<open>\<^verbatim>\<open>.replace(/\r\n/g, "\n")\<close> and \<^verbatim>\<open>.replace(/\r/g, "\n")\<close>.\<close>

fun replace_crlf :: "string \<Rightarrow> string" where
  "replace_crlf (a # b # cs) =
     (if a = CR \<and> b = LF then LF # replace_crlf cs else a # replace_crlf (b # cs))"
| "replace_crlf cs = cs"

definition replace_cr :: "string \<Rightarrow> string" where
  "replace_cr s = map (\<lambda>c. if c = CR then LF else c) s"

text \<open>\<^verbatim>\<open>s.split(c)\<close> for a one-character separator: never the empty array.\<close>

fun split_on :: "char \<Rightarrow> string \<Rightarrow> string list" where
  "split_on c [] = [[]]"
| "split_on c (x # xs) =
     (if x = c then [] # split_on c xs
      else (case split_on c xs of l # ls \<Rightarrow> (x # l) # ls | [] \<Rightarrow> [[x]]))"

definition text_lines :: "string \<Rightarrow> string list" where
  "text_lines rawText = split_on LF (replace_cr (replace_crlf rawText))"

text \<open>\<^verbatim>\<open>s.split(" - ")\<close>: the matches are taken from left to right and do not overlap.\<close>

fun starts_sep :: "string \<Rightarrow> bool" where
  "starts_sep (a # b # c # cs) \<longleftrightarrow> a = CHR '' '' \<and> b = CHR ''-'' \<and> c = CHR '' ''"
| "starts_sep cs \<longleftrightarrow> False"

function split_sep :: "string \<Rightarrow> string list" where
  "split_sep [] = [[]]"
| "split_sep (x # xs) =
     (if starts_sep (x # xs) then [] # split_sep (drop 2 xs)
      else (case split_sep xs of l # ls \<Rightarrow> (x # l) # ls | [] \<Rightarrow> [[x]]))"
  by pat_completeness auto
termination
  by (relation "measure length") auto

fun join_with :: "string \<Rightarrow> string list \<Rightarrow> string" where
  "join_with sep [] = []"
| "join_with sep [x] = x"
| "join_with sep (x # y # ys) = x @ sep @ join_with sep (y # ys)"

text \<open>The decimal digits of a line index, as the template literal prints them.\<close>

definition digit :: "nat \<Rightarrow> char" where
  "digit d = char_of (48 + d)"

function show_nat :: "nat \<Rightarrow> string" where
  "show_nat n = (if n < 10 then [digit n] else show_nat (n div 10) @ [digit (n mod 10)])"
  by pat_completeness auto
termination
  by (relation "measure (\<lambda>n. n)") auto

declare show_nat.simps [simp del]

record ParseAcc =
  seen :: "string set"
  acc_entries :: "WordEntry list"
  acc_emptyCount :: int
  acc_duplicateCount :: int

record ParseResult =
  entries :: "WordEntry list"
  emptyCount :: int
  duplicateCount :: int
  totalLines :: int

text \<open>The body of the \<^verbatim>\<open>forEach\<close> callback, on the variables it closes over.\<close>

definition parseLine :: "bool \<Rightarrow> bool \<Rightarrow> ParseAcc \<Rightarrow> string \<times> nat \<Rightarrow> ParseAcc" where
  "parseLine removeEmpty removeDuplicates acc li =
     (let line = fst li; index = snd li;
          trimmed = trim line;
          acc1 = (if trimmed = [] then acc\<lparr> acc_emptyCount := acc_emptyCount acc + 1 \<rparr> else acc)
      in if trimmed = [] \<and> removeEmpty then acc1
         else (case split_sep trimmed of
                 [] \<Rightarrow> acc1
               | wordPart # hintParts \<Rightarrow>
                   (let w = trim wordPart in
                    if w = [] then acc1
                    else (let key = toLowerCase w in
                          if removeDuplicates \<and> key \<in> seen acc1
                          then acc1\<lparr> acc_duplicateCount := acc_duplicateCount acc1 + 1 \<rparr>
                          else (let h = trim (join_with '' - '' hintParts) in
                                acc1\<lparr> seen := insert key (seen acc1),
                                      acc_entries := acc_entries acc1 @
                                        [\<lparr> entry_id = key @ ''-'' @ show_nat index,
                                           word = w,
                                           hint = (if h = [] then None else Some h) \<rparr>] \<rparr>)))))"

definition parseLines :: "string \<Rightarrow> bool \<Rightarrow> bool \<Rightarrow> ParseResult" where
  "parseLines rawText removeEmpty removeDuplicates =
     (if trim rawText = []
      then \<lparr> entries = [], emptyCount = 0, duplicateCount = 0, totalLines = 0 \<rparr>
      else (let lines = text_lines rawText;
                acc = foldl (parseLine removeEmpty removeDuplicates)
                        \<lparr> seen = {}, acc_entries = [], acc_emptyCount = 0,
                          acc_duplicateCount = 0 \<rparr>
                        (zip lines [0 ..< length lines])
            in \<lparr> entries = acc_entries acc, emptyCount = acc_emptyCount acc,
                 duplicateCount = acc_duplicateCount acc,
                 totalLines = int (length lines) \<rparr>))"

section \<open>Mastery store\<close>

text \<open>
  The store is an object used as a dictionary from words to records, of type
  \<^verbatim>\<open>Record<string, WordStat>\<close>: a map. (The object and the map agree on every key
  that is not the name of a member of \<^verbatim>\<open>Object.prototype\<close>, such as
  \<^verbatim>\<open>constructor\<close>; the model does not cover words that are such names.)
\<close>

type_synonym Stats = "string \<rightharpoonup> WordStat"

definition newStat :: WordStat where
  "newStat = \<lparr> exposures = 0, correct = 0, incorrect = 0, lastSeen = 0, lastMiss = 0,
               mastery = 0.4 \<rparr>"

definition ensureStats :: "Stats \<Rightarrow> WordEntry \<Rightarrow> Stats" where
  "ensureStats stats entry =
     (case stats (word entry) of None \<Rightarrow> stats(word entry \<mapsto> newStat) | Some s \<Rightarrow> stats)"

text \<open>
  The part of \<^verbatim>\<open>applyAnswer\<close> that updates the record of the current question's word.
  After \<^verbatim>\<open>ensureStats\<close> the record exists, so \<^verbatim>\<open>stats[entry.word]\<close> is \<open>the\<close> of the
  lookup.
\<close>

definition applyAnswer_stats :: "int \<Rightarrow> bool \<Rightarrow> WordEntry \<Rightarrow> Stats \<Rightarrow> Stats" where
  "applyAnswer_stats now isCorrect entry stats =
     (let stats1 = ensureStats stats entry;
          stat = the (stats1 (word entry));
          stat1 = stat\<lparr> exposures := exposures stat + 1, lastSeen := now \<rparr>;
          stat2 = (if isCorrect
                   then stat1\<lparr> correct := correct stat1 + 1,
                               mastery := clamp (mastery stat1 + 0.08) 0 1 \<rparr>
                   else stat1\<lparr> incorrect := incorrect stat1 + 1, lastMiss := now,
                               mastery := clamp (mastery stat1 - 0.12) 0 1 \<rparr>)
      in stats1(word entry \<mapsto> stat2))"

text \<open>The part of \<^verbatim>\<open>handleSelfRating\<close> before it asks for the next question.\<close>

definition handleSelfRating_stats :: "Rating \<Rightarrow> WordEntry \<Rightarrow> Stats \<Rightarrow> Stats" where
  "handleSelfRating_stats rating entry stats =
     (let stats1 = ensureStats stats entry;
          stat = the (stats1 (word entry));
          stat1 = (if rating = Know then stat\<lparr> mastery := clamp (mastery stat + 0.1) 0 1 \<rparr>
                   else if rating = Unsure
                   then stat\<lparr> mastery := clamp (mastery stat - 0.1) 0 1 \<rparr>
                   else stat)
      in stats1(word entry \<mapsto> stat1))"

text \<open>
  The events that write to the store: an answer, a self-rating, and the
  \<^verbatim>\<open>ensureStats\<close> calls that the sampler and the weak-word list make for every entry
  of the pool.
\<close>

datatype StoreEvent =
    Outcome WordEntry bool int
  | SelfRated WordEntry Rating
  | Ensured "WordEntry list"

fun storeStep :: "Stats \<Rightarrow> StoreEvent \<Rightarrow> Stats" where
  "storeStep stats (Outcome entry isCorrect now) = applyAnswer_stats now isCorrect entry stats"
| "storeStep stats (SelfRated entry rating) = handleSelfRating_stats rating entry stats"
| "storeStep stats (Ensured pool) = foldl ensureStats stats pool"

definition runStore :: "Stats \<Rightarrow> StoreEvent list \<Rightarrow> Stats" where
  "runStore stats evs = foldl storeStep stats evs"

section \<open>Missed words\<close>

text \<open>The updater \<^verbatim>\<open>applyAnswer\<close> passes to \<^verbatim>\<open>setMissedWords\<close> on an incorrect answer.\<close>

definition applyAnswer_missed :: "string list \<Rightarrow> WordEntry \<times> bool \<Rightarrow> string list" where
  "applyAnswer_missed prev a =
     (let entry = fst a; isCorrect = snd a in
      if isCorrect then prev
      else if word entry \<in> set prev then prev else prev @ [word entry])"

text \<open>The session starts with no missed word (\<^verbatim>\<open>setMissedWords([])\<close>).\<close>

definition missedAfter :: "(WordEntry \<times> bool) list \<Rightarrow> string list" where
  "missedAfter answers = foldl applyAnswer_missed [] answers"

text \<open>The text \<^verbatim>\<open>exportMissed\<close> puts in the downloaded file; nothing when no word was missed.\<close>

definition exportMissed :: "string list \<Rightarrow> string option" where
  "exportMissed missedWords =
     (if length missedWords = 0 then None else Some (join_with [LF] missedWords))"

text \<open>The distinct elements of a list in the order of their first occurrence.\<close>

fun first_occurrences :: "'a list \<Rightarrow> 'a list" where
  "first_occurrences [] = []"
| "first_occurrences (x # xs) = x # first_occurrences (filter (\<lambda>y. y \<noteq> x) xs)"

section \<open>Word sampler\<close>

text \<open>The weight \<^verbatim>\<open>pickWeighted\<close> computes for one entry from its record.\<close>

definition entryWeight :: "int \<Rightarrow> string option \<Rightarrow> WordEntry \<Rightarrow> WordStat \<Rightarrow> rat" where
  "entryWeight now lastWord entry stat =
     (let recencyPenalty = (if Some (word entry) = lastWord then 0.5 else 1);
          weak = 1 - mastery stat;
          newBonus = (if exposures stat = 0 then 0.6 else 0);
          recentMiss = (if now - lastMiss stat < 36 * 60 * 60 * 1000 then 0.5 else 0)
      in (0.2 + weak * 0.9 + newBonus + recentMiss) * recencyPenalty)"

text \<open>The \<^verbatim>\<open>entries.map\<close> callback, which creates the missing records as it goes.\<close>

fun weightsLoop :: "int \<Rightarrow> string option \<Rightarrow> WordEntry list \<Rightarrow> Stats \<Rightarrow> rat list \<times> Stats" where
  "weightsLoop now lastWord [] stats = ([], stats)"
| "weightsLoop now lastWord (entry # rest) stats =
     (let stats1 = ensureStats stats entry;
          stat = the (stats1 (word entry));
          weight = entryWeight now lastWord entry stat;
          r = weightsLoop now lastWord rest stats1
      in (weight # fst r, snd r))"

text \<open>The \<^verbatim>\<open>for\<close> loop over the candidates; \<open>None\<close> when it runs to its end.\<close>

fun rouletteLoop :: "rat \<Rightarrow> WordEntry list \<Rightarrow> rat list \<Rightarrow> WordEntry option" where
  "rouletteLoop roll (entry # rest) (weight # weights) =
     (let roll1 = roll - weight in
      if roll1 \<le> 0 then Some entry else rouletteLoop roll1 rest weights)"
| "rouletteLoop roll rest weights = None"

text \<open>
  \<open>rnd\<close> is the value of \<^verbatim>\<open>Math.random()\<close>. The result is the entry returned, \<open>None\<close>
  for the \<^verbatim>\<open>undefined\<close> that \<^verbatim>\<open>entries[0]\<close> is on an empty pool, and the store with
  the records created. The parameter \<^verbatim>\<open>entries\<close> is \<open>candidates\<close> here.
\<close>

definition pickWeighted ::
  "rat \<Rightarrow> int \<Rightarrow> WordEntry list \<Rightarrow> Stats \<Rightarrow> string option \<Rightarrow> WordEntry option \<times> Stats" where
  "pickWeighted rnd now candidates stats lastWord =
     (let r = weightsLoop now lastWord candidates stats;
          weights = fst r;
          total' = foldl (+) 0 weights;
          roll = rnd * total'
      in (case rouletteLoop roll candidates weights of
            Some e \<Rightarrow> Some e
          | None \<Rightarrow> (case candidates of [] \<Rightarrow> None | first # rest \<Rightarrow> Some first),
          snd r))"


section \<open>Question generator\<close>

text \<open>
  The prompt and the example sentence of a question are display text and are left out
  of the record. \<^verbatim>\<open>correctIndex\<close> is \<open>-1\<close> when \<^verbatim>\<open>findIndex\<close> finds nothing and in
  type mode.
\<close>

record Question =
  entry :: WordEntry
  choices :: "WordEntry list"
  correctIndex :: int
  mode :: Mode

fun findIndex :: "('a \<Rightarrow> bool) \<Rightarrow> 'a list \<Rightarrow> int" where
  "findIndex P [] = -1"
| "findIndex P (x # xs) =
     (if P x then 0 else (let i = findIndex P xs in if i < 0 then -1 else i + 1))"

text \<open>
  The random source of one call of \<^verbatim>\<open>nextQuestion\<close>: the draw of the sampler, the
  draws of the \<open>n\<close>-th call of \<^verbatim>\<open>mutateWord\<close> (operation, position, letter), and the
  two orders that \<^verbatim>\<open>sort(() => Math.random() - 0.5)\<close> produces.
\<close>

record Rand =
  rnd_pick :: rat
  rnd_mutation :: "nat \<Rightarrow> rat \<times> rat \<times> rat"
  shuffle_pool :: "WordEntry list \<Rightarrow> WordEntry list"
  shuffle_choices :: "WordEntry list \<Rightarrow> WordEntry list"

text \<open>A sort with a random comparator rearranges the array.\<close>

definition shuffles :: "('a list \<Rightarrow> 'a list) \<Rightarrow> bool" where
  "shuffles f \<longleftrightarrow> (\<forall>xs. mset (f xs) = mset xs)"

fun pickChoicesLoop :: "WordEntry \<Rightarrow> int \<Rightarrow> WordEntry list \<Rightarrow> WordEntry list \<Rightarrow> WordEntry list" where
  "pickChoicesLoop correct_e size' [] cs = cs"
| "pickChoicesLoop correct_e size' (e # shuffled) cs =
     (if int (length cs) \<ge> size' then cs
      else if word e \<noteq> word correct_e then pickChoicesLoop correct_e size' shuffled (cs @ [e])
      else pickChoicesLoop correct_e size' shuffled cs)"

definition pickChoices :: "Rand \<Rightarrow> WordEntry list \<Rightarrow> WordEntry \<Rightarrow> int \<Rightarrow> WordEntry list" where
  "pickChoices r pool correct_e size' =
     shuffle_choices r (pickChoicesLoop correct_e size' (shuffle_pool r pool) [correct_e])"

definition alphabet :: string where
  "alphabet = ''abcdefghijklmnopqrstuvwxyz''"

text \<open>
  \<^verbatim>\<open>mutateWord\<close> with its three draws, each in \<open>[0, 1)\<close>: the positions computed from
  such draws are inside the word.
\<close>

definition mutateWord :: "rat \<times> rat \<times> rat \<Rightarrow> string \<Rightarrow> string" where
  "mutateWord draws w =
     (let r1 = fst draws; r2 = fst (snd draws); r3 = snd (snd draws);
          letters = w
      in if length letters < 3 then w
         else (let roll = \<lfloor>r1 * 3\<rfloor> in
               if roll = 0
               then (let idx = nat \<lfloor>r2 * (of_nat (length letters) - 1)\<rfloor> in
                     letters[idx := letters ! (idx + 1), idx + 1 := letters ! idx])
               else if roll = 1
               then (let idx = nat \<lfloor>r2 * of_nat (length letters)\<rfloor> in
                     take idx letters @ drop (idx + 1) letters)
               else (let idx = nat \<lfloor>r2 * of_nat (length letters)\<rfloor>;
                         replacement = alphabet ! nat \<lfloor>r3 * of_nat (length alphabet)\<rfloor>
                     in letters[idx := replacement])))"

text \<open>The \<^verbatim>\<open>while\<close> loop of \<^verbatim>\<open>similarChoices\<close>; \<open>variants\<close> is the set in insertion order.\<close>

function variantsLoop ::
  "(nat \<Rightarrow> rat \<times> rat \<times> rat) \<Rightarrow> string \<Rightarrow> int \<Rightarrow> nat \<Rightarrow> string list \<Rightarrow> string list" where
  "variantsLoop draws normalized total' guard variants =
     (if int (length variants) < total' - 1 \<and> guard < 40
      then (let next = mutateWord (draws guard) normalized;
                variants1 = (if next \<noteq> [] \<and> next \<noteq> normalized
                             then (if next \<in> set variants then variants else variants @ [next])
                             else variants)
            in variantsLoop draws normalized total' (guard + 1) variants1)
      else variants)"
  by pat_completeness auto
termination
  by (relation "measure (\<lambda>(draws, normalized, total', guard, variants). 40 - guard)") auto

declare variantsLoop.simps [simp del]

definition similarChoices :: "(nat \<Rightarrow> rat \<times> rat \<times> rat) \<Rightarrow> string \<Rightarrow> int \<Rightarrow> string list option" where
  "similarChoices draws w total' =
     (let normalized = trim w in
      if length normalized < 4 \<or> CHR '' '' \<in> set normalized then None
      else (let variants = variantsLoop draws normalized total' 0 [] in
            if int (length variants) < total' - 1 then None
            else Some (normalized # variants)))"

datatype js_error = TypeError | SyntaxError

text \<open>
  \<^verbatim>\<open>nextQuestion\<close>: the question it installs, the store and the last word it leaves.
  On an empty pool the sampler returns \<^verbatim>\<open>undefined\<close> and reading its \<^verbatim>\<open>word\<close> throws.
\<close>

definition variantEntry :: "WordEntry \<Rightarrow> string \<times> nat \<Rightarrow> WordEntry" where
  "variantEntry e vi =
     \<lparr> entry_id = entry_id e @ ''-var-'' @ show_nat (snd vi), word = fst vi, hint = hint e \<rparr>"

definition nextQuestion ::
  "Rand \<Rightarrow> int \<Rightarrow> WordEntry list \<Rightarrow> Difficulty \<Rightarrow> Stats \<Rightarrow> string option
     \<Rightarrow> js_error + (Question \<times> Stats \<times> string option)" where
  "nextQuestion r now wordPool difficulty stats lastWord =
     (let p = pickWeighted (rnd_pick r) now wordPool stats lastWord in
      case fst p of
        None \<Rightarrow> Inl TypeError
      | Some e \<Rightarrow>
          (let m = (if difficulty = Hard then TypeMode else ChoiceMode);
               size' = min 4 (max 2 (int (length wordPool)));
               cs = (if m = ChoiceMode
                     then (if difficulty = Normal
                           then (case similarChoices (rnd_mutation r) (word e) size' of
                                   Some variants \<Rightarrow>
                                     shuffle_choices r
                                       (map (variantEntry e) (zip variants [0 ..< length variants]))
                                 | None \<Rightarrow> pickChoices r wordPool e size')
                           else pickChoices r wordPool e size')
                     else []);
               ci = (if m = ChoiceMode then findIndex (\<lambda>c. word c = word e) cs else -1)
           in Inr (\<lparr> entry = e, choices = cs, correctIndex = ci, mode = m \<rparr>,
                   snd p, Some (word e))))"

section \<open>Persistence\<close>

text \<open>
  The stored values are JSON text. \<^verbatim>\<open>JSON.parse\<close> is a parameter: a function from
  text to the parsed value, or to the \<^verbatim>\<open>SyntaxError\<close> it throws.
  \<^verbatim>\<open>localStorage.getItem\<close> returns the stored text or \<^verbatim>\<open>null\<close>.
\<close>

datatype json =
    JNull
  | JBool bool
  | JNum rat
  | JStr string
  | JArr "json list"
  | JObj "(string \<times> json) list"

text \<open>Reading \<^verbatim>\<open>.date\<close>: a \<^verbatim>\<open>TypeError\<close> on \<^verbatim>\<open>null\<close>, \<^verbatim>\<open>undefined\<close> where there is none.\<close>

fun get_date :: "json \<Rightarrow> js_error + json option" where
  "get_date JNull = Inl TypeError"
| "get_date (JObj members) = Inr (map_of members ''date'')"
| "get_date v = Inr None"

text \<open>\<^verbatim>\<open>try { body } catch { handler }\<close>.\<close>

definition try_catch :: "js_error + 'a \<Rightarrow> js_error + 'a \<Rightarrow> js_error + 'a" where
  "try_catch body handler = (case body of Inl err \<Rightarrow> handler | Inr v \<Rightarrow> Inr v)"

definition loadStats :: "(string \<Rightarrow> js_error + json) \<Rightarrow> string option \<Rightarrow> js_error + json" where
  "loadStats JSON_parse raw =
     (case raw of
        None \<Rightarrow> Inr (JObj [])
      | Some stored \<Rightarrow>
          if stored = [] then Inr (JObj [])
          else try_catch (JSON_parse stored) (Inr (JObj [])))"

definition freshDaily :: "string \<Rightarrow> json" where
  "freshDaily today = JObj [(''date'', JStr today), (''correct'', JNum 0)]"

definition loadDaily ::
  "(string \<Rightarrow> js_error + json) \<Rightarrow> string \<Rightarrow> string option \<Rightarrow> js_error + json" where
  "loadDaily JSON_parse today raw =
     (case raw of
        None \<Rightarrow> Inr (freshDaily today)
      | Some stored \<Rightarrow>
          if stored = [] then Inr (freshDaily today)
          else try_catch
                 (case JSON_parse stored of
                    Inl err \<Rightarrow> Inl err
                  | Inr parsed \<Rightarrow>
                      (case get_date parsed of
                         Inl err \<Rightarrow> Inl err
                       | Inr d \<Rightarrow>
                           if d \<noteq> Some (JStr today) then Inr (freshDaily today)
                           else Inr parsed))
                 (Inr (freshDaily today)))"

section \<open>Invariants of the store\<close>


definition countersAgree :: "Stats \<Rightarrow> bool" where
  "countersAgree stats \<longleftrightarrow>
     (\<forall>w stat. stats w = Some stat \<longrightarrow> correct stat + incorrect stat = exposures stat)"

text \<open>What the parser guarantees of the word of an entry.\<close>

definition parsedWord :: "string \<Rightarrow> bool" where
  "parsedWord w \<longleftrightarrow> w \<noteq> [] \<and> trim w = w \<and> LF \<notin> set w"

section \<open>The sampler as the specification describes it\<close>




section \<open>Scoring\<close>

text \<open>
  C2. From a fresh session, five correct answers in a row give streak 5, combo 2 and the
  score increments 10, 10, 20, 20, 20 (total 80); on every correct answer the streak is
  incremented, the combo is \<open>clamp (1 + floor (streak / 3)) 1 5\<close> of the incremented
  streak and the score grows by ten times that combo.
\<close>

theorem five_correct_answers:
  "map (\<lambda>n. score (runSession len (replicate n (Answered True)))) [0, 1, 2, 3, 4, 5]
     = [0, 10, 20, 40, 60, 80]
   \<and> streak (runSession len (replicate 5 (Answered True))) = 5
   \<and> combo (runSession len (replicate 5 (Answered True))) = 2
   \<and> streak (applyAnswer_session True s) = streak s + 1
   \<and> combo (applyAnswer_session True s) = clamp (1 + (streak s + 1) div 3) 1 5
   \<and> score (applyAnswer_session True s) = score s + 10 * combo (applyAnswer_session True s)"
  by (simp add: runSession_def startSession_def applyAnswer_session_def clamp_def
      numeral_eq_Suc Let_def)

section \<open>Energy and the end of a session\<close>

lemma energy_sessionStep:
  "0 \<le> energy (sessionStep s ev) \<and> energy (sessionStep s ev) \<le> 100
     \<or> energy (sessionStep s ev) = energy s"
  by (cases ev) (simp_all add: applyAnswer_session_def tick_def clamp_def Let_def)

lemma energy_foldl:
  "0 \<le> energy s \<Longrightarrow> energy s \<le> 100 \<Longrightarrow>
   0 \<le> energy (foldl sessionStep s evs) \<and> energy (foldl sessionStep s evs) \<le> 100"
proof (induction evs arbitrary: s)
  case Nil
  then show ?case by simp
next
  case (Cons ev evs)
  have "0 \<le> energy (sessionStep s ev) \<and> energy (sessionStep s ev) \<le> 100"
    using energy_sessionStep [of s ev] Cons.prems by auto
  then show ?case using Cons.IH by simp
qed

text \<open>
  C3. A session starts with energy 100; a correct answer changes it to
  \<open>clamp (energy + 8) 0 100\<close>, an incorrect one to \<open>clamp (energy - 18) 0 100\<close>, a
  timer tick leaves it. After every sequence of answers and ticks the energy is
  between 0 and 100, and in every playing state with energy at most 0 the session-end
  effect moves to the summary stage, whatever the time left and the session length
  (zen mode included).
\<close>

theorem energy_bounded_and_depletion_ends:
  "energy (startSession len) = 100
   \<and> energy (applyAnswer_session True s) = clamp (energy s + 8) 0 100
   \<and> energy (applyAnswer_session False s) = clamp (energy s - 18) 0 100
   \<and> energy (tick s) = energy s
   \<and> 0 \<le> energy (runSession len evs) \<and> energy (runSession len evs) \<le> 100
   \<and> (energy s \<le> 0 \<longrightarrow> sessionEndEffect Play len' s = Summary)"
proof -
  have "0 \<le> energy (startSession len)" "energy (startSession len) \<le> 100"
    by (simp_all add: startSession_def)
  then have "0 \<le> energy (runSession len evs) \<and> energy (runSession len evs) \<le> 100"
    unfolding runSession_def by (rule energy_foldl)
  moreover have "energy (startSession len) = 100" by (simp add: startSession_def)
  moreover have "energy (applyAnswer_session True s) = clamp (energy s + 8) 0 100"
    "energy (applyAnswer_session False s) = clamp (energy s - 18) 0 100"
    by (simp_all add: applyAnswer_session_def Let_def)
  moreover have "energy (tick s) = energy s" by (simp add: tick_def)
  ultimately show ?thesis by (simp add: sessionEndEffect_def)
qed

text \<open>Six misses in a ten-minute session: the energy is 0 with 600 seconds left.\<close>

theorem energy_bounded_and_depletion_ends_witness:
  "energy (runSession Len10 (replicate 6 (Answered False))) = 0
   \<and> timeLeft (runSession Len10 (replicate 6 (Answered False))) = 600
   \<and> sessionEndEffect Play Len10 (runSession Len10 (replicate 6 (Answered False))) = Summary
   \<and> sessionEndEffect Play Zen (runSession Len10 (replicate 6 (Answered False))) = Summary"
proof -
  let ?s = "runSession Len10 (replicate 6 (Answered False))"
  have e: "energy ?s = 0" and t: "timeLeft ?s = 600"
    by (simp_all add: runSession_def startSession_def applyAnswer_session_def clamp_def
        numeral_eq_Suc Let_def)
  from e have le: "energy ?s \<le> 0" by simp
  note c = conjunct2 [THEN conjunct2, THEN conjunct2, THEN conjunct2, THEN conjunct2,
      THEN conjunct2]
  from energy_bounded_and_depletion_ends [of Len10 ?s "[]" Len10, THEN c] le
  have a: "sessionEndEffect Play Len10 ?s = Summary" by (rule mp)
  from energy_bounded_and_depletion_ends [of Len10 ?s "[]" Zen, THEN c] le
  have b: "sessionEndEffect Play Zen ?s = Summary" by (rule mp)
  from e t a b show ?thesis by simp
qed

section \<open>The mastery store\<close>

lemma ensureStats_defined: "ensureStats stats e (word e) \<noteq> None"
  by (simp add: ensureStats_def split: option.splits)


lemma ensureStats_cases:
  "ensureStats stats e w = Some stat \<Longrightarrow> stats w = Some stat \<or> stat = newStat"
  by (auto simp: ensureStats_def split: option.splits if_splits)









lemma countersAgree_ensureStats:
  "countersAgree stats \<Longrightarrow> countersAgree (ensureStats stats e)"
  unfolding countersAgree_def
  by (auto dest!: ensureStats_cases simp: newStat_def)

lemma countersAgree_ensure_all:
  "countersAgree stats \<Longrightarrow> countersAgree (foldl ensureStats stats pool)"
  by (induction pool arbitrary: stats) (simp_all add: countersAgree_ensureStats)

lemma applyAnswer_stats_other:
  "w \<noteq> word e \<Longrightarrow> applyAnswer_stats now ok e stats w = ensureStats stats e w"
  by (simp add: applyAnswer_stats_def Let_def)

lemma handleSelfRating_stats_other:
  "w \<noteq> word e \<Longrightarrow> handleSelfRating_stats rating e stats w = ensureStats stats e w"
  by (simp add: handleSelfRating_stats_def Let_def)

lemma applyAnswer_counters:
  "ensureStats stats e (word e) = Some old \<Longrightarrow>
   \<exists>new. applyAnswer_stats now ok e stats (word e) = Some new
     \<and> exposures new = exposures old + 1
     \<and> correct new = correct old + (if ok then 1 else 0)
     \<and> incorrect new = incorrect old + (if ok then 0 else 1)"
  by (simp add: applyAnswer_stats_def Let_def)

lemma handleSelfRating_counters:
  "ensureStats stats e (word e) = Some old \<Longrightarrow>
   \<exists>new. handleSelfRating_stats rating e stats (word e) = Some new
     \<and> exposures new = exposures old
     \<and> correct new = correct old
     \<and> incorrect new = incorrect old"
  by (simp add: handleSelfRating_stats_def Let_def)

lemma countersAgree_applyAnswer:
  assumes "countersAgree stats"
  shows "countersAgree (applyAnswer_stats now ok e stats)"
  unfolding countersAgree_def
proof (intro allI impI)
  fix w stat
  assume l: "applyAnswer_stats now ok e stats w = Some stat"
  from assms have r: "countersAgree (ensureStats stats e)" by (rule countersAgree_ensureStats)
  show "correct stat + incorrect stat = exposures stat"
  proof (cases "w = word e")
    case False
    with l have "ensureStats stats e w = Some stat" by (simp add: applyAnswer_stats_other)
    with r show ?thesis by (simp add: countersAgree_def)
  next
    case True
    obtain old where s: "ensureStats stats e (word e) = Some old"
      using ensureStats_defined [of stats e] by auto
    with r have o: "correct old + incorrect old = exposures old" by (simp add: countersAgree_def)
    obtain new where n: "applyAnswer_stats now ok e stats (word e) = Some new"
      and c: "exposures new = exposures old + 1"
        "correct new = correct old + (if ok then 1 else 0)"
        "incorrect new = incorrect old + (if ok then 0 else 1)"
      using applyAnswer_counters [OF s, of now ok] by blast
    from n l True have "new = stat" by simp
    with c o show ?thesis by (cases ok) simp_all
  qed
qed

lemma countersAgree_handleSelfRating:
  assumes "countersAgree stats"
  shows "countersAgree (handleSelfRating_stats rating e stats)"
  unfolding countersAgree_def
proof (intro allI impI)
  fix w stat
  assume l: "handleSelfRating_stats rating e stats w = Some stat"
  from assms have r: "countersAgree (ensureStats stats e)" by (rule countersAgree_ensureStats)
  show "correct stat + incorrect stat = exposures stat"
  proof (cases "w = word e")
    case False
    with l have "ensureStats stats e w = Some stat" by (simp add: handleSelfRating_stats_other)
    with r show ?thesis by (simp add: countersAgree_def)
  next
    case True
    obtain old where s: "ensureStats stats e (word e) = Some old"
      using ensureStats_defined [of stats e] by auto
    with r have o: "correct old + incorrect old = exposures old" by (simp add: countersAgree_def)
    obtain new where n: "handleSelfRating_stats rating e stats (word e) = Some new"
      and c: "exposures new = exposures old" "correct new = correct old"
        "incorrect new = incorrect old"
      using handleSelfRating_counters [OF s, of rating] by blast
    from n l True have "new = stat" by simp
    with c o show ?thesis by simp
  qed
qed

lemma countersAgree_storeStep:
  "countersAgree stats \<Longrightarrow> countersAgree (storeStep stats ev)"
  by (cases ev)
    (simp_all add: countersAgree_applyAnswer countersAgree_handleSelfRating
      countersAgree_ensure_all)

lemma countersAgree_runStore:
  "countersAgree stats \<Longrightarrow> countersAgree (runStore stats evs)"
  unfolding runStore_def
  by (induction evs arbitrary: stats) (simp_all add: countersAgree_storeStep)


text \<open>
  C7. A record is created with all three counters 0, and after every sequence of store
  updates that starts from the empty store (or from a store whose records satisfy it)
  every record has \<open>correct + incorrect = exposures\<close>: an answer adds one to the
  exposures and to exactly one of the two other counters, a self-rating changes none
  of the three.
\<close>

theorem counters_agree:
  "exposures newStat = 0 \<and> correct newStat = 0 \<and> incorrect newStat = 0
   \<and> (runStore Map.empty evs w = Some stat \<longrightarrow> correct stat + incorrect stat = exposures stat)
   \<and> (countersAgree stats \<and> runStore stats evs w = Some stat
        \<longrightarrow> correct stat + incorrect stat = exposures stat)
   \<and> (ensureStats stats e (word e) = Some old \<longrightarrow>
        (\<exists>new. applyAnswer_stats now ok e stats (word e) = Some new
           \<and> exposures new = exposures old + 1
           \<and> correct new = correct old + (if ok then 1 else 0)
           \<and> incorrect new = incorrect old + (if ok then 0 else 1))
        \<and> (\<exists>new. handleSelfRating_stats rating e stats (word e) = Some new
           \<and> exposures new = exposures old
           \<and> correct new = correct old
           \<and> incorrect new = incorrect old))"
proof (intro conjI impI)
  have "countersAgree Map.empty" by (simp add: countersAgree_def)
  then have "countersAgree (runStore Map.empty evs)" by (rule countersAgree_runStore)
  then show "correct stat + incorrect stat = exposures stat"
    if "runStore Map.empty evs w = Some stat"
    using that by (simp add: countersAgree_def)
  show "correct stat + incorrect stat = exposures stat"
    if "countersAgree stats \<and> runStore stats evs w = Some stat"
    using that countersAgree_runStore [of stats evs] by (auto simp: countersAgree_def)
  show "\<exists>new. applyAnswer_stats now ok e stats (word e) = Some new
           \<and> exposures new = exposures old + 1
           \<and> correct new = correct old + (if ok then 1 else 0)
           \<and> incorrect new = incorrect old + (if ok then 0 else 1)"
    if "ensureStats stats e (word e) = Some old"
    using that by (rule applyAnswer_counters)
  show "\<exists>new. handleSelfRating_stats rating e stats (word e) = Some new
           \<and> exposures new = exposures old
           \<and> correct new = correct old
           \<and> incorrect new = incorrect old"
    if "ensureStats stats e (word e) = Some old"
    using that by (rule handleSelfRating_counters)
qed (simp_all add: newStat_def)

theorem counters_agree_witness:
  "ensureStats Map.empty \<lparr> entry_id = ''focus-0'', word = ''focus'', hint = None \<rparr> ''focus''
     = Some newStat
   \<and> runStore Map.empty
       [Outcome \<lparr> entry_id = ''focus-0'', word = ''focus'', hint = None \<rparr> True 5,
        SelfRated \<lparr> entry_id = ''focus-0'', word = ''focus'', hint = None \<rparr> Unsure,
        Outcome \<lparr> entry_id = ''focus-0'', word = ''focus'', hint = None \<rparr> False 9,
        Outcome \<lparr> entry_id = ''focus-0'', word = ''focus'', hint = None \<rparr> False 12]
       ''focus''
     = Some \<lparr> exposures = 3, correct = 1, incorrect = 2, lastSeen = 12, lastMiss = 12,
              mastery = 0.14 \<rparr>
   \<and> (1::int) + 2 = 3
   \<and> (\<exists>new. applyAnswer_stats 5 False \<lparr> entry_id = ''focus-0'', word = ''focus'', hint = None \<rparr>
               Map.empty ''focus'' = Some new
        \<and> exposures new = 1 \<and> correct new = 0 \<and> incorrect new = 1)
   \<and> countersAgree
         [''run'' \<mapsto> \<lparr> exposures = 2, correct = 1, incorrect = 1, lastSeen = 3, lastMiss = 2,
                       mastery = 0.05 \<rparr>]
   \<and> runStore
         [''run'' \<mapsto> \<lparr> exposures = 2, correct = 1, incorrect = 1, lastSeen = 3, lastMiss = 2,
                       mastery = 0.05 \<rparr>]
         [Outcome \<lparr> entry_id = ''run-1'', word = ''run'', hint = None \<rparr> False 7] ''run''
     = Some \<lparr> exposures = 3, correct = 1, incorrect = 2, lastSeen = 7, lastMiss = 7,
              mastery = 0 \<rparr>"
proof -
  let ?e = "\<lparr> entry_id = ''focus-0'', word = ''focus'', hint = None \<rparr>"
  let ?evs = "[Outcome ?e True 5, SelfRated ?e Unsure, Outcome ?e False 9, Outcome ?e False 12]"
  let ?stat = "\<lparr> exposures = 3, correct = 1, incorrect = 2, lastSeen = 12, lastMiss = 12,
              mastery = 0.14 \<rparr>"
  let ?stats = "[''run'' \<mapsto> \<lparr> exposures = 2, correct = 1, incorrect = 1, lastSeen = 3,
      lastMiss = 2, mastery = 0.05 \<rparr>]"
  let ?evs' = "[Outcome \<lparr> entry_id = ''run-1'', word = ''run'', hint = None \<rparr> False 7]"
  let ?stat' = "\<lparr> exposures = 3, correct = 1, incorrect = 2, lastSeen = 7, lastMiss = 7,
              mastery = 0 \<rparr>"
  have c: "ensureStats Map.empty ?e (word ?e) = Some newStat"
    by (simp add: ensureStats_def)
  have h: "runStore Map.empty ?evs ''focus'' = Some ?stat"
    by (simp add: runStore_def applyAnswer_stats_def handleSelfRating_stats_def
        ensureStats_def newStat_def clamp_def Let_def)
  have r: "countersAgree ?stats" by (simp add: countersAgree_def)
  have h': "runStore ?stats ?evs' ''run'' = Some ?stat'"
    by (simp add: runStore_def applyAnswer_stats_def ensureStats_def clamp_def Let_def)
  note t = counters_agree [of ?evs "''focus''" ?stat Map.empty ?e newStat 5 False Neutral]
  from t [THEN conjunct2, THEN conjunct2, THEN conjunct2, THEN conjunct1] h
  have "correct ?stat + incorrect ?stat = exposures ?stat" by (rule mp)
  moreover
  from t [THEN conjunct2, THEN conjunct2, THEN conjunct2, THEN conjunct2, THEN conjunct2] c
  have "(\<exists>new. applyAnswer_stats 5 False ?e Map.empty (word ?e) = Some new
        \<and> exposures new = exposures newStat + 1
        \<and> correct new = correct newStat + (if False then 1 else 0)
        \<and> incorrect new = incorrect newStat + (if False then 0 else 1))
      \<and> (\<exists>new. handleSelfRating_stats Neutral ?e Map.empty (word ?e) = Some new
        \<and> exposures new = exposures newStat
        \<and> correct new = correct newStat
        \<and> incorrect new = incorrect newStat)" by (rule mp)
  moreover
  note t' = counters_agree [of ?evs' "''run''" ?stat' ?stats ?e newStat 5 False Neutral]
  from r h' have "countersAgree ?stats \<and> runStore ?stats ?evs' ''run'' = Some ?stat'"
    by (rule conjI)
  with t' [THEN conjunct2, THEN conjunct2, THEN conjunct2, THEN conjunct2, THEN conjunct1]
  have "correct ?stat' + incorrect ?stat' = exposures ?stat'" by (rule mp)
  ultimately show ?thesis using c h r h' by (simp add: newStat_def)
qed

section \<open>Loading persisted data\<close>





text \<open>
  Text that parses is returned as it parsed, whatever its shape; for the daily goal,
  when it carries today's date.
\<close>

lemma loadStats_parsed:
  "stored \<noteq> [] \<Longrightarrow> JSON_parse stored = Inr v \<Longrightarrow> loadStats JSON_parse (Some stored) = Inr v"
  by (simp add: loadStats_def try_catch_def)

lemma loadDaily_parsed:
  "stored \<noteq> [] \<Longrightarrow> JSON_parse stored = Inr v \<Longrightarrow> get_date v = Inr (Some (JStr today)) \<Longrightarrow>
   loadDaily JSON_parse today (Some stored) = Inr v"
  by (simp add: loadDaily_def try_catch_def)



section \<open>Strings and lines\<close>

lemma set_trim: "set (trim s) \<subseteq> set s"
proof -
  have "set (trim s) \<subseteq> set (dropWhile is_ws s)"
    unfolding trim_def using set_dropWhileD [of _ is_ws "rev (dropWhile is_ws s)"] by auto
  also have "\<dots> \<subseteq> set s" using set_dropWhileD [of _ is_ws s] by auto
  finally show ?thesis .
qed

lemma dropWhile_all_Nil:
  "(\<forall>x\<in>set (dropWhile P xs). P x) \<longleftrightarrow> dropWhile P xs = []"
proof
  assume a: "\<forall>x\<in>set (dropWhile P xs). P x"
  show "dropWhile P xs = []"
  proof (rule ccontr)
    assume n: "dropWhile P xs \<noteq> []"
    then have "\<not> P (hd (dropWhile P xs))" by (rule hd_dropWhile)
    moreover from n have "hd (dropWhile P xs) \<in> set (dropWhile P xs)" by simp
    ultimately show False using a by blast
  qed
next
  assume e: "dropWhile P xs = []"
  show "\<forall>x\<in>set (dropWhile P xs). P x" unfolding e by simp
qed

lemma trim_eq_Nil: "trim s = [] \<longleftrightarrow> (\<forall>c\<in>set s. is_ws c)"
proof -
  have "trim s = [] \<longleftrightarrow> (\<forall>x\<in>set (dropWhile is_ws s). is_ws x)"
    by (simp add: trim_def dropWhile_eq_Nil_conv)
  also have "\<dots> \<longleftrightarrow> dropWhile is_ws s = []" by (rule dropWhile_all_Nil)
  also have "\<dots> \<longleftrightarrow> (\<forall>c\<in>set s. is_ws c)" by (simp add: dropWhile_eq_Nil_conv)
  finally show ?thesis .
qed

lemma dropWhile_snoc_keeps: "\<not> P x \<Longrightarrow> \<exists>zs. dropWhile P (ys @ [x]) = zs @ [x]"
  by (simp add: dropWhile_append)

lemma trim_idem: "trim (trim s) = trim s"
proof (cases "trim s = []")
  case True
  have "trim [] = []" by (simp add: trim_def)
  with True show ?thesis by simp
next
  case False
  define d where "d = dropWhile is_ws s"
  have t: "trim s = rev (dropWhile is_ws (rev d))" by (simp add: trim_def d_def)
  from False t have dn: "d \<noteq> []" by auto
  then have nh: "\<not> is_ws (hd d)" unfolding d_def by (rule hd_dropWhile)
  from dn have "rev d = rev (tl d) @ [hd d]" by (cases d) simp_all
  with dropWhile_snoc_keeps [of is_ws "hd d" "rev (tl d)"] nh
  obtain zs where "dropWhile is_ws (rev d) = zs @ [hd d]" by auto
  with t have tt: "trim s = hd d # rev zs" by simp
  with nh have front: "dropWhile is_ws (trim s) = trim s" by simp
  have rear: "dropWhile is_ws (rev (trim s)) = rev (trim s)"
    by (simp add: t)
  show ?thesis
    unfolding trim_def [of "trim s"] front rear by simp
qed

lemma split_on_nonempty: "split_on c s \<noteq> []"
  by (induction s) (auto split: list.splits)

lemma split_on_free: "l \<in> set (split_on c s) \<Longrightarrow> c \<notin> set l"
proof (induction s arbitrary: l)
  case Nil
  then show ?case by simp
next
  case (Cons x xs)
  show ?case
  proof (cases "x = c")
    case True
    with Cons show ?thesis by auto
  next
    case False
    obtain h t where ht: "split_on c xs = h # t"
      using split_on_nonempty [of c xs] by (cases "split_on c xs") auto
    with Cons.prems False have "l = x # h \<or> l \<in> set t" by simp
    then show ?thesis
    proof
      assume "l = x # h"
      moreover have "c \<notin> set h" using Cons.IH [of h] ht by simp
      ultimately show ?thesis using False by auto
    next
      assume "l \<in> set t"
      then show ?thesis using Cons.IH [of l] ht by simp
    qed
  qed
qed

lemma split_sep_nonempty: "split_sep s \<noteq> []"
  by (induction s rule: split_sep.induct) (auto split: list.splits)

lemma split_sep_subset: "p \<in> set (split_sep s) \<Longrightarrow> set p \<subseteq> set s"
proof (induction s arbitrary: p rule: split_sep.induct)
  case 1
  then show ?case by simp
next
  case (2 x xs)
  show ?case
  proof (cases "starts_sep (x # xs)")
    case True
    with "2.prems" have "p = [] \<or> p \<in> set (split_sep (drop 2 xs))" by simp
    then show ?thesis
    proof
      assume "p = []" then show ?thesis by simp
    next
      assume "p \<in> set (split_sep (drop 2 xs))"
      then have "set p \<subseteq> set (drop 2 xs)" using "2.IH"(1) True by blast
      also have "\<dots> \<subseteq> set xs" by (rule set_drop_subset)
      finally show ?thesis by auto
    qed
  next
    case False
    obtain h t where ht: "split_sep xs = h # t"
      using split_sep_nonempty [of xs] by (cases "split_sep xs") auto
    with "2.prems" False have "p = x # h \<or> p \<in> set t" by simp
    then show ?thesis
    proof
      assume "p = x # h"
      moreover have "set h \<subseteq> set xs" using "2.IH"(2) [of h] False ht by simp
      ultimately show ?thesis by auto
    next
      assume "p \<in> set t"
      then have "set p \<subseteq> set xs" using "2.IH"(2) [of p] False ht by simp
      then show ?thesis by auto
    qed
  qed
qed

section \<open>The list parser\<close>

lemma parseLine_emptyCount:
  "acc_emptyCount (parseLine re rd acc li)
     = acc_emptyCount acc + (if trim (fst li) = [] then 1 else 0)"
  by (simp add: parseLine_def Let_def split: list.splits)

lemma foldl_parseLine_emptyCount:
  "acc_emptyCount (foldl (parseLine re rd) acc lis)
     = acc_emptyCount acc + int (length (filter (\<lambda>li. trim (fst li) = []) lis))"
  by (induction lis arbitrary: acc) (simp_all add: parseLine_emptyCount)

lemma length_filter_zip_fst:
  assumes "length ys = length xs"
  shows "length (filter (\<lambda>p. P (fst p)) (zip xs ys)) = length (filter P xs)"
proof -
  have "filter P (map fst (zip xs ys)) = map fst (filter (\<lambda>p. P (fst p)) (zip xs ys))"
    by (simp add: filter_map comp_def)
  moreover from assms have "map fst (zip xs ys) = xs" by simp
  ultimately have "filter P xs = map fst (filter (\<lambda>p. P (fst p)) (zip xs ys))" by simp
  then show ?thesis by (metis length_map)
qed

lemma parseLine_entries_cases:
  "acc_entries (parseLine re rd acc li) = acc_entries acc \<and> seen (parseLine re rd acc li) = seen acc
   \<or> (\<exists>wordPart hintParts i h.
         split_sep (trim (fst li)) = wordPart # hintParts
         \<and> trim wordPart \<noteq> []
         \<and> (rd \<longrightarrow> toLowerCase (trim wordPart) \<notin> seen acc)
         \<and> acc_entries (parseLine re rd acc li)
             = acc_entries acc @ [\<lparr> entry_id = i, word = trim wordPart, hint = h \<rparr>]
         \<and> seen (parseLine re rd acc li) = insert (toLowerCase (trim wordPart)) (seen acc))"
proof (cases "split_sep (trim (fst li))")
  case Nil
  then show ?thesis by (simp add: parseLine_def Let_def)
next
  case (Cons wordPart hintParts)
  show ?thesis
  proof (cases "trim (fst li) = [] \<and> re \<or> trim wordPart = []
      \<or> rd \<and> toLowerCase (trim wordPart) \<in> seen acc")
    case True
    with Cons have "acc_entries (parseLine re rd acc li) = acc_entries acc
      \<and> seen (parseLine re rd acc li) = seen acc"
      by (auto simp add: parseLine_def Let_def)
    then show ?thesis by (rule disjI1)
  next
    case False
    with Cons have "acc_entries (parseLine re rd acc li)
             = acc_entries acc @ [\<lparr> entry_id = toLowerCase (trim wordPart) @ ''-'' @ show_nat (snd li),
                 word = trim wordPart,
                 hint = (if trim (join_with '' - '' hintParts) = [] then None
                         else Some (trim (join_with '' - '' hintParts))) \<rparr>]
         \<and> seen (parseLine re rd acc li) = insert (toLowerCase (trim wordPart)) (seen acc)"
      by (simp add: parseLine_def Let_def)
    with Cons False show ?thesis by blast
  qed
qed

lemma parseLine_new_entry:
  assumes "e \<in> set (acc_entries (parseLine re rd acc li))"
    and "e \<notin> set (acc_entries acc)"
  shows "word e \<noteq> [] \<and> trim (word e) = word e \<and> set (word e) \<subseteq> set (fst li)
    \<and> (rd \<longrightarrow> toLowerCase (word e) \<notin> seen acc)"
proof -
  from parseLine_entries_cases [of re rd acc li] assms
  obtain wordPart hintParts i h where
    sp: "split_sep (trim (fst li)) = wordPart # hintParts"
    and ne: "trim wordPart \<noteq> []"
    and ns: "rd \<longrightarrow> toLowerCase (trim wordPart) \<notin> seen acc"
    and en: "acc_entries (parseLine re rd acc li)
             = acc_entries acc @ [\<lparr> entry_id = i, word = trim wordPart, hint = h \<rparr>]"
    by auto
  from en assms have w: "word e = trim wordPart" by auto
  from sp have "wordPart \<in> set (split_sep (trim (fst li)))" by simp
  then have "set wordPart \<subseteq> set (trim (fst li))" by (rule split_sep_subset)
  with set_trim [of "fst li"] have "set wordPart \<subseteq> set (fst li)" by blast
  with set_trim [of wordPart] have sub: "set (trim wordPart) \<subseteq> set (fst li)" by blast
  from w ne ns sub show ?thesis by (simp add: trim_idem)
qed

lemma foldl_parseLine_words:
  assumes "\<forall>li \<in> set lis. LF \<notin> set (fst li)"
    and "\<forall>e \<in> set (acc_entries acc). parsedWord (word e)"
  shows "\<forall>e \<in> set (acc_entries (foldl (parseLine re rd) acc lis)). parsedWord (word e)"
  using assms
proof (induction lis arbitrary: acc)
  case Nil
  then show ?case by simp
next
  case (Cons li lis)
  have "\<forall>e \<in> set (acc_entries (parseLine re rd acc li)). parsedWord (word e)"
  proof
    fix e assume e: "e \<in> set (acc_entries (parseLine re rd acc li))"
    show "parsedWord (word e)"
    proof (cases "e \<in> set (acc_entries acc)")
      case True
      with Cons.prems show ?thesis by blast
    next
      case False
      from parseLine_new_entry [OF e False] Cons.prems(1)
      show ?thesis by (auto simp: parsedWord_def)
    qed
  qed
  with Cons show ?case by simp
qed

lemma parseLines_words:
  "e \<in> set (entries (parseLines rawText re rd)) \<Longrightarrow> parsedWord (word e)"
proof (cases "trim rawText = []")
  case True
  assume "e \<in> set (entries (parseLines rawText re rd))"
  with True show ?thesis by (simp add: parseLines_def)
next
  case False
  assume e: "e \<in> set (entries (parseLines rawText re rd))"
  let ?lis = "zip (text_lines rawText) [0 ..< length (text_lines rawText)]"
  let ?acc = "\<lparr> seen = {}, acc_entries = [], acc_emptyCount = 0, acc_duplicateCount = 0 \<rparr>"
  have "\<forall>li \<in> set ?lis. LF \<notin> set (fst li)"
  proof
    fix li assume "li \<in> set ?lis"
    then have "fst li \<in> set (text_lines rawText)"
      using set_zip_leftD [of "fst li" "snd li" "text_lines rawText"] by simp
    then show "LF \<notin> set (fst li)" unfolding text_lines_def by (rule split_on_free)
  qed
  moreover have "\<forall>e \<in> set (acc_entries ?acc). parsedWord (word e)" by simp
  ultimately have "\<forall>e \<in> set (acc_entries (foldl (parseLine re rd) ?acc ?lis)). parsedWord (word e)"
    by (rule foldl_parseLine_words)
  with e False show ?thesis by (simp add: parseLines_def Let_def)
qed

text \<open>
  C6, amended. For a text with a character that is not white space, \<open>totalLines\<close>
  is the number of lines of the normalised text and \<open>emptyCount\<close> the number of its
  lines that are white space only, whatever the two flags. For an empty or
  white-space-only text the parser returns early and reports 0 for both.
\<close>

theorem parse_counts:
  "(trim rawText \<noteq> [] \<longrightarrow>
      totalLines (parseLines rawText re rd) = int (length (text_lines rawText))
      \<and> emptyCount (parseLines rawText re rd)
          = int (length (filter (\<lambda>l. \<forall>c\<in>set l. is_ws c) (text_lines rawText))))
   \<and> (trim rawText = [] \<longrightarrow>
      totalLines (parseLines rawText re rd) = 0 \<and> emptyCount (parseLines rawText re rd) = 0)"
proof (intro conjI impI)
  assume n: "trim rawText \<noteq> []"
  then show "totalLines (parseLines rawText re rd) = int (length (text_lines rawText))"
    by (simp add: parseLines_def Let_def)
  have zl: "length (filter (\<lambda>p. trim (fst p) = [])
          (zip (text_lines rawText) [0 ..< length (text_lines rawText)]))
        = length (filter (\<lambda>l. trim l = []) (text_lines rawText))"
    by (rule length_filter_zip_fst) simp
  from n have "emptyCount (parseLines rawText re rd)
      = int (length (filter (\<lambda>p. trim (fst p) = [])
          (zip (text_lines rawText) [0 ..< length (text_lines rawText)])))"
    by (simp add: parseLines_def Let_def foldl_parseLine_emptyCount)
  also have "\<dots> = int (length (filter (\<lambda>l. trim l = []) (text_lines rawText)))"
    using zl by simp
  also have "\<dots> = int (length (filter (\<lambda>l. \<forall>c\<in>set l. is_ws c) (text_lines rawText)))"
    by (simp add: trim_eq_Nil)
  finally show "emptyCount (parseLines rawText re rd)
          = int (length (filter (\<lambda>l. \<forall>c\<in>set l. is_ws c) (text_lines rawText)))" .
qed (simp_all add: parseLines_def)

text \<open>
  Without the condition on the text the counts differ: a single line feed is two
  empty lines, and the parser reports no line at all.
\<close>

theorem parse_counts_counterexample:
  "\<not> (totalLines (parseLines [LF] True True) = int (length (text_lines [LF]))
      \<and> emptyCount (parseLines [LF] True True)
          = int (length (filter (\<lambda>l. \<forall>c\<in>set l. is_ws c) (text_lines [LF]))))"
  by (simp add: parseLines_def trim_def is_ws_def text_lines_def replace_cr_def LF_def CR_def)


text \<open>
  Three lines, the second of them blank and ended by CR LF; and a text of a space and
  a line feed.
\<close>

theorem parse_counts_witness:
  "trim (''run - to move fast'' @ [LF] @ ''  '' @ [CR, LF] @ ''sprint'') \<noteq> []
   \<and> totalLines (parseLines (''run - to move fast'' @ [LF] @ ''  '' @ [CR, LF] @ ''sprint'')
        False True) = 3
   \<and> emptyCount (parseLines (''run - to move fast'' @ [LF] @ ''  '' @ [CR, LF] @ ''sprint'')
        False True) = 1
   \<and> trim ('' '' @ [LF]) = []
   \<and> totalLines (parseLines ('' '' @ [LF]) False True) = 0
   \<and> emptyCount (parseLines ('' '' @ [LF]) False True) = 0"
proof -
  let ?raw = "''run - to move fast'' @ [LF] @ ''  '' @ [CR, LF] @ ''sprint''"
  have n: "trim ?raw \<noteq> []" by code_simp
  have l: "int (length (text_lines ?raw)) = 3" by code_simp
  have f: "int (length (filter (\<lambda>l. \<forall>c\<in>set l. is_ws c) (text_lines ?raw))) = 1"
    by code_simp
  from parse_counts [of ?raw False True, THEN conjunct1] n
  have a: "totalLines (parseLines ?raw False True) = int (length (text_lines ?raw))
      \<and> emptyCount (parseLines ?raw False True)
          = int (length (filter (\<lambda>l. \<forall>c\<in>set l. is_ws c) (text_lines ?raw)))"
    by (rule mp)
  have b: "trim ('' '' @ [LF]) = []" by code_simp
  from parse_counts [of "'' '' @ [LF]" False True, THEN conjunct2] b
  have c: "totalLines (parseLines ('' '' @ [LF]) False True) = 0
      \<and> emptyCount (parseLines ('' '' @ [LF]) False True) = 0"
    by (rule mp)
  from n l f a b c show ?thesis by simp
qed

section \<open>The missed-word export\<close>

lemma split_on_free_word: "c \<notin> set x \<Longrightarrow> split_on c x = [x]"
  by (induction x) auto

lemma split_on_append: "c \<notin> set x \<Longrightarrow> split_on c (x @ c # rest) = x # split_on c rest"
  by (induction x) auto

lemma split_on_join:
  "ws \<noteq> [] \<Longrightarrow> \<forall>w \<in> set ws. c \<notin> set w \<Longrightarrow> split_on c (join_with [c] ws) = ws"
proof (induction "[c]" ws rule: join_with.induct)
  case 1
  then show ?case by simp
next
  case (2 x)
  then show ?case by (simp add: split_on_free_word)
next
  case (3 x y ys)
  then show ?case by (simp add: split_on_append)
qed

lemma foldl_applyAnswer_missed:
  "foldl applyAnswer_missed prev answers
     = prev @ first_occurrences
         (filter (\<lambda>w. w \<notin> set prev) (map (\<lambda>a. word (fst a)) (filter (\<lambda>a. \<not> snd a) answers)))"
proof (induction answers arbitrary: prev)
  case Nil
  then show ?case by simp
next
  case (Cons a answers)
  show ?case
  proof (cases "snd a \<or> word (fst a) \<in> set prev")
    case True
    then have "applyAnswer_missed prev a = prev" by (auto simp: applyAnswer_missed_def Let_def)
    with True Cons.IH [of prev] show ?thesis by auto
  next
    case False
    then have "applyAnswer_missed prev a = prev @ [word (fst a)]"
      by (simp add: applyAnswer_missed_def Let_def)
    moreover have "filter (\<lambda>w. w \<notin> set (prev @ [word (fst a)])) xs
        = filter (\<lambda>y. y \<noteq> word (fst a)) (filter (\<lambda>w. w \<notin> set prev) xs)" for xs
      by (induction xs) auto
    ultimately show ?thesis using False Cons.IH [of "prev @ [word (fst a)]"] by simp
  qed
qed

lemma missedAfter_eq:
  "missedAfter answers
     = first_occurrences (map (\<lambda>a. word (fst a)) (filter (\<lambda>a. \<not> snd a) answers))"
  by (simp add: missedAfter_def foldl_applyAnswer_missed)

lemma set_first_occurrences: "set (first_occurrences xs) = set xs"
  by (induction xs rule: first_occurrences.induct) auto

lemma distinct_first_occurrences: "distinct (first_occurrences xs)"
  by (induction xs rule: first_occurrences.induct) (auto simp: set_first_occurrences)

text \<open>
  C8. The missed words of a session (whose questions are entries of the parsed pool)
  are the distinct incorrectly answered words in the order of their first miss; when
  the export produces a file, the file is their join with line feeds, and splitting
  the file at the line feeds gives these words back.
\<close>

theorem missed_export_roundtrip:
  assumes "\<forall>a \<in> set answers. fst a \<in> set (entries (parseLines rawText re rd))"
    and "exportMissed (missedAfter answers) = Some file"
  shows "file = join_with [LF]
            (first_occurrences (map (\<lambda>a. word (fst a)) (filter (\<lambda>a. \<not> snd a) answers)))
    \<and> split_on LF file
        = first_occurrences (map (\<lambda>a. word (fst a)) (filter (\<lambda>a. \<not> snd a) answers))
    \<and> distinct (split_on LF file)
    \<and> set (split_on LF file) = (\<lambda>a. word (fst a)) ` {a \<in> set answers. \<not> snd a}"
proof -
  let ?ws = "first_occurrences (map (\<lambda>a. word (fst a)) (filter (\<lambda>a. \<not> snd a) answers))"
  from assms(2) have ne: "?ws \<noteq> []" and f: "file = join_with [LF] ?ws"
    by (auto simp: exportMissed_def missedAfter_eq split: if_splits)
  have "\<forall>w \<in> set ?ws. LF \<notin> set w"
  proof
    fix w assume "w \<in> set ?ws"
    then obtain a where "a \<in> set answers" "w = word (fst a)"
      by (auto simp: set_first_occurrences)
    with assms(1) parseLines_words [of "fst a" rawText re rd]
    show "LF \<notin> set w" by (auto simp: parsedWord_def)
  qed
  with ne have s: "split_on LF (join_with [LF] ?ws) = ?ws" by (rule split_on_join)
  have "set ?ws = (\<lambda>a. word (fst a)) ` {a \<in> set answers. \<not> snd a}"
    by (simp add: set_first_occurrences)
  with f s show ?thesis by (simp add: distinct_first_occurrences)
qed

text \<open>A pool of three words; \<open>focus\<close> is missed twice, \<open>sprint\<close> once.\<close>

theorem missed_export_roundtrip_witness:
  "exportMissed (missedAfter
      [(\<lparr> entry_id = ''focus-1'', word = ''focus'', hint = None \<rparr>, False),
       (\<lparr> entry_id = ''run-0'', word = ''run'', hint = None \<rparr>, True),
       (\<lparr> entry_id = ''sprint-2'', word = ''sprint'', hint = None \<rparr>, False),
       (\<lparr> entry_id = ''focus-1'', word = ''focus'', hint = None \<rparr>, False)])
     = Some (''focus'' @ [LF] @ ''sprint'')
   \<and> split_on LF (''focus'' @ [LF] @ ''sprint'') = [''focus'', ''sprint'']"
proof -
  let ?raw = "''run'' @ [LF] @ ''focus'' @ [LF] @ ''sprint''"
  let ?answers = "[(\<lparr> entry_id = ''focus-1'', word = ''focus'', hint = None \<rparr>, False),
       (\<lparr> entry_id = ''run-0'', word = ''run'', hint = None \<rparr>, True),
       (\<lparr> entry_id = ''sprint-2'', word = ''sprint'', hint = None \<rparr>, False),
       (\<lparr> entry_id = ''focus-1'', word = ''focus'', hint = None \<rparr>, False)]"
  have p: "entries (parseLines ?raw True True)
      = [\<lparr> entry_id = ''run-0'', word = ''run'', hint = None \<rparr>,
         \<lparr> entry_id = ''focus-1'', word = ''focus'', hint = None \<rparr>,
         \<lparr> entry_id = ''sprint-2'', word = ''sprint'', hint = None \<rparr>]"
    by code_simp
  have a: "\<forall>a \<in> set ?answers. fst a \<in> set (entries (parseLines ?raw True True))"
    unfolding p by simp
  have e: "exportMissed (missedAfter ?answers) = Some (''focus'' @ [LF] @ ''sprint'')"
    by code_simp
  have f: "first_occurrences (map (\<lambda>a. word (fst a)) (filter (\<lambda>a. \<not> snd a) ?answers))
      = [''focus'', ''sprint'']"
    by simp
  from missed_export_roundtrip [OF a e]
  have "split_on LF (''focus'' @ [LF] @ ''sprint'')
      = first_occurrences (map (\<lambda>a. word (fst a)) (filter (\<lambda>a. \<not> snd a) ?answers))"
    by (rule conjunct2 [THEN conjunct1])
  with e f show ?thesis by simp
qed

section \<open>The word sampler\<close>





lemma rouletteLoop_member: "rouletteLoop roll es ws = Some e \<Longrightarrow> e \<in> set es"
  by (induction roll es ws rule: rouletteLoop.induct) (auto simp: Let_def split: if_splits)





lemma pickWeighted_member:
  assumes "candidates \<noteq> []"
  shows "\<exists>e. fst (pickWeighted rnd now candidates stats lastWord) = Some e \<and> e \<in> set candidates"
proof (cases "rouletteLoop (rnd * foldl (+) 0 (fst (weightsLoop now lastWord candidates stats)))
    candidates (fst (weightsLoop now lastWord candidates stats))")
  case None
  with assms show ?thesis
    by (cases candidates) (simp_all add: pickWeighted_def Let_def)
next
  case (Some e)
  then have "e \<in> set candidates" by (rule rouletteLoop_member)
  with Some show ?thesis by (simp add: pickWeighted_def Let_def)
qed

lemma weightsLoop_stats:
  "snd (weightsLoop now lastWord candidates stats) = foldl ensureStats stats candidates"
  by (induction candidates arbitrary: stats) (simp_all add: Let_def)

lemma pickWeighted_stats:
  "snd (pickWeighted rnd now candidates stats lastWord) = foldl ensureStats stats candidates"
  by (simp add: pickWeighted_def Let_def weightsLoop_stats)




section \<open>The question generator\<close>

lemma shuffles_length: "shuffles f \<Longrightarrow> length (f xs) = length xs"
  unfolding shuffles_def by (metis mset_eq_length)

lemma shuffles_set: "shuffles f \<Longrightarrow> set (f xs) = set xs"
  unfolding shuffles_def by (metis mset_eq_setD)

lemma shuffles_filter_length:
  assumes "shuffles f"
  shows "length (filter P (f xs)) = length (filter P xs)"
proof -
  from assms have "mset (f xs) = mset xs" by (simp add: shuffles_def)
  then have "mset (filter P (f xs)) = mset (filter P xs)" by simp
  then show ?thesis by (rule mset_eq_length)
qed

lemma findIndex_found:
  "\<exists>x \<in> set xs. P x \<Longrightarrow>
   0 \<le> findIndex P xs \<and> findIndex P xs < int (length xs) \<and> P (xs ! nat (findIndex P xs))"
proof (induction xs)
  case Nil
  then show ?case by simp
next
  case (Cons x xs)
  show ?case
  proof (cases "P x")
    case True
    then show ?thesis by simp
  next
    case False
    with Cons.prems have "\<exists>x \<in> set xs. P x" by simp
    then have ih: "0 \<le> findIndex P xs \<and> findIndex P xs < int (length xs)
        \<and> P (xs ! nat (findIndex P xs))" by (rule Cons.IH)
    from ih have "nat (findIndex P xs + 1) = Suc (nat (findIndex P xs))"
      by (simp add: nat_add_distrib)
    with ih False show ?thesis by (simp add: Let_def)
  qed
qed

lemma pickChoicesLoop_keeps: "set cs \<subseteq> set (pickChoicesLoop c sz xs cs)"
  by (induction c sz xs cs rule: pickChoicesLoop.induct) auto

lemma pickChoicesLoop_length:
  "int (length (pickChoicesLoop c sz xs cs))
     = (if int (length cs) \<ge> sz then int (length cs)
        else min sz (int (length cs) + int (length (filter (\<lambda>e. word e \<noteq> word c) xs))))"
proof (induction c sz xs cs rule: pickChoicesLoop.induct)
  case (1 c sz cs)
  then show ?case by simp
next
  case (2 c sz e shuffled cs)
  show ?case
  proof (cases "int (length cs) \<ge> sz")
    case True
    then show ?thesis by simp
  next
    case full: False
    show ?thesis
    proof (cases "word e \<noteq> word c")
      case True
      with full "2.IH"(1) show ?thesis by (simp add: min_def)
    next
      case False
      with full "2.IH"(2) show ?thesis by simp
    qed
  qed
qed

lemma filter_same_key_length:
  "distinct (map f xs) \<Longrightarrow> x \<in> set xs \<Longrightarrow> length (filter (\<lambda>e. f e = f x) xs) = 1"
proof (induction xs)
  case Nil
  then show ?case by simp
next
  case (Cons y ys)
  show ?case
  proof (cases "f y = f x")
    case True
    with Cons.prems have "\<forall>e \<in> set ys. f e \<noteq> f x" by (auto simp: image_iff)
    then have "filter (\<lambda>e. f e = f x) ys = []" by (simp add: filter_empty_conv)
    with True show ?thesis by simp
  next
    case False
    with Cons show ?thesis by auto
  qed
qed

lemma filter_other_key_length:
  assumes "distinct (map f xs)" and "x \<in> set xs"
  shows "int (length (filter (\<lambda>e. f e \<noteq> f x) xs)) = int (length xs) - 1"
proof -
  have "length (filter (\<lambda>e. f e = f x) xs) + length (filter (\<lambda>e. \<not> f e = f x) xs) = length xs"
    by (rule sum_length_filter_compl)
  with filter_same_key_length [OF assms] show ?thesis by simp
qed

lemma pickChoices_length:
  assumes "shuffles (shuffle_pool r)" and "shuffles (shuffle_choices r)" and "1 \<le> sz"
  shows "int (length (pickChoices r pool c sz))
     = min sz (1 + int (length (filter (\<lambda>e. word e \<noteq> word c) pool)))"
proof -
  have "int (length (pickChoices r pool c sz))
      = int (length (pickChoicesLoop c sz (shuffle_pool r pool) [c]))"
    by (simp add: pickChoices_def shuffles_length [OF assms(2)])
  also have "\<dots> = (if 1 \<ge> sz then 1
      else min sz (1 + int (length (filter (\<lambda>e. word e \<noteq> word c) (shuffle_pool r pool)))))"
    by (simp add: pickChoicesLoop_length)
  also have "\<dots> = min sz (1 + int (length (filter (\<lambda>e. word e \<noteq> word c) pool)))"
    using assms(3) by (simp add: shuffles_filter_length [OF assms(1)] min_def)
  finally show ?thesis .
qed

lemma pickChoices_has_correct:
  assumes "shuffles (shuffle_choices r)"
  shows "c \<in> set (pickChoices r pool c sz)"
proof -
  have "c \<in> set (pickChoicesLoop c sz (shuffle_pool r pool) [c])"
    using pickChoicesLoop_keeps [of "[c]" c sz "shuffle_pool r pool"] by simp
  then show ?thesis by (simp add: pickChoices_def shuffles_set [OF assms])
qed

lemma variantsLoop_length:
  "int (length variants) \<le> total' - 1 \<Longrightarrow>
   int (length (variantsLoop draws normalized total' guard variants)) \<le> total' - 1"
proof (induction draws normalized total' guard variants rule: variantsLoop.induct)
  case (1 draws normalized total' guard variants)
  show ?case
  proof (cases "int (length variants) < total' - 1 \<and> guard < 40")
    case False
    have "variantsLoop draws normalized total' guard variants = variants"
      by (subst variantsLoop.simps) (simp only: False if_False)
    with "1.prems" show ?thesis by simp
  next
    case True
    define next_v where "next_v = mutateWord (draws guard) normalized"
    define variants1 where "variants1 =
      (if next_v \<noteq> [] \<and> next_v \<noteq> normalized
       then (if next_v \<in> set variants then variants else variants @ [next_v])
       else variants)"
    from True have "int (length variants1) \<le> total' - 1"
      by (simp add: variants1_def)
    with True have "int (length (variantsLoop draws normalized total' (guard + 1) variants1))
        \<le> total' - 1"
      using "1.IH" [of next_v variants1] by (simp add: next_v_def variants1_def)
    moreover from True
    have "variantsLoop draws normalized total' guard variants
        = variantsLoop draws normalized total' (guard + 1) variants1"
      by (subst variantsLoop.simps) (simp add: Let_def next_v_def variants1_def)
    ultimately show ?thesis by simp
  qed
qed

lemma similarChoices_Some:
  assumes "similarChoices draws w total' = Some vs" and "1 \<le> total'"
  shows "int (length vs) = total' \<and> trim w \<in> set vs"
proof -
  let ?variants = "variantsLoop draws (trim w) total' 0 []"
  from assms(1) have vs: "vs = trim w # ?variants" and ge: "\<not> int (length ?variants) < total' - 1"
    by (auto simp: similarChoices_def Let_def split: if_splits)
  from assms(2) have "int (length ([] :: string list)) \<le> total' - 1" by simp
  then have "int (length ?variants) \<le> total' - 1" by (rule variantsLoop_length)
  with ge vs show ?thesis by simp
qed

lemma map_variantEntry_words:
  "map word (map (variantEntry e) (zip vs [0 ..< length vs])) = vs"
proof -
  have "map word (map (variantEntry e) (zip vs [0 ..< length vs]))
      = map fst (zip vs [0 ..< length vs])"
    by (simp add: variantEntry_def comp_def)
  then show ?thesis by simp
qed


lemma foldl_parseLine_distinct:
  assumes "distinct (map word (acc_entries acc))"
    and "\<forall>e \<in> set (acc_entries acc). toLowerCase (word e) \<in> seen acc"
  shows "distinct (map word (acc_entries (foldl (parseLine re True) acc lis)))"
  using assms
proof (induction lis arbitrary: acc)
  case Nil
  then show ?case by simp
next
  case (Cons li lis)
  let ?acc = "parseLine re True acc li"
  have "distinct (map word (acc_entries ?acc))
      \<and> (\<forall>e \<in> set (acc_entries ?acc). toLowerCase (word e) \<in> seen ?acc)"
    using parseLine_entries_cases [of re True acc li]
  proof
    assume "acc_entries ?acc = acc_entries acc \<and> seen ?acc = seen acc"
    with Cons.prems show ?thesis by simp
  next
    assume "\<exists>wordPart hintParts i h.
         split_sep (trim (fst li)) = wordPart # hintParts
         \<and> trim wordPart \<noteq> []
         \<and> (True \<longrightarrow> toLowerCase (trim wordPart) \<notin> seen acc)
         \<and> acc_entries ?acc = acc_entries acc @ [\<lparr> entry_id = i, word = trim wordPart, hint = h \<rparr>]
         \<and> seen ?acc = insert (toLowerCase (trim wordPart)) (seen acc)"
    then obtain wordPart i h where ns: "toLowerCase (trim wordPart) \<notin> seen acc"
      and en: "acc_entries ?acc = acc_entries acc @ [\<lparr> entry_id = i, word = trim wordPart, hint = h \<rparr>]"
      and se: "seen ?acc = insert (toLowerCase (trim wordPart)) (seen acc)"
      by blast
    from ns Cons.prems(2) have "trim wordPart \<notin> word ` set (acc_entries acc)" by auto
    with Cons.prems en se show ?thesis by auto
  qed
  then show ?case using Cons.IH [of ?acc] by simp
qed

lemma parseLines_distinct: "distinct (map word (entries (parseLines rawText re True)))"
proof (cases "trim rawText = []")
  case True
  then show ?thesis by (simp add: parseLines_def)
next
  case False
  let ?acc = "\<lparr> seen = {}, acc_entries = [], acc_emptyCount = 0, acc_duplicateCount = 0 \<rparr>"
  have "distinct (map word (acc_entries
      (foldl (parseLine re True) ?acc (zip (text_lines rawText) [0 ..< length (text_lines rawText)]))))"
    by (rule foldl_parseLine_distinct) simp_all
  with False show ?thesis by (simp add: parseLines_def Let_def)
qed

lemma nextQuestion_choice:
  assumes "fst (pickWeighted (rnd_pick r) now pool stats lw) = Some e" and "d \<noteq> Hard"
  shows "\<exists>cs. nextQuestion r now pool d stats lw
        = Inr (\<lparr> entry = e, choices = cs,
                 correctIndex = findIndex (\<lambda>c. word c = word e) cs, mode = ChoiceMode \<rparr>,
               snd (pickWeighted (rnd_pick r) now pool stats lw), Some (word e))
      \<and> (cs = pickChoices r pool e (min 4 (max 2 (int (length pool))))
         \<or> (\<exists>vs. similarChoices (rnd_mutation r) (word e) (min 4 (max 2 (int (length pool))))
                = Some vs
              \<and> cs = shuffle_choices r (map (variantEntry e) (zip vs [0 ..< length vs]))))"
proof (cases "d = Normal")
  case False
  with assms show ?thesis by (simp add: nextQuestion_def Let_def)
next
  case True
  show ?thesis
  proof (cases "similarChoices (rnd_mutation r) (word e) (min 4 (max 2 (int (length pool))))")
    case None
    with True assms show ?thesis by (simp add: nextQuestion_def Let_def)
  next
    case (Some vs)
    with True assms show ?thesis by (simp add: nextQuestion_def Let_def)
  qed
qed

lemma choice_size_bounds:
  "2 \<le> min 4 (max 2 (int n)) \<and> (2 \<le> n \<longrightarrow> min 4 (max 2 (int n)) \<le> int n)"
  by auto

text \<open>
  C10. For a pool produced by the parser, a difficulty with choices (easy or normal)
  and sorts that rearrange their arrays, \<^verbatim>\<open>nextQuestion\<close> returns a choice-mode
  question on an entry of the pool whose \<open>correctIndex\<close> is an index of the choice
  list, and the choice at that index has the word of the sampled entry, on the
  mutation path as on the pool path.
\<close>

theorem correct_index_valid:
  assumes "wordPool = entries (parseLines rawText re rd)" and "wordPool \<noteq> []"
    and "difficulty \<noteq> Hard"
    and "shuffles (shuffle_pool r)" and "shuffles (shuffle_choices r)"
  shows "\<exists>q st lw. nextQuestion r now wordPool difficulty stats lastWord = Inr (q, st, lw)
      \<and> mode q = ChoiceMode
      \<and> entry q \<in> set wordPool
      \<and> 0 \<le> correctIndex q \<and> correctIndex q < int (length (choices q))
      \<and> word (choices q ! nat (correctIndex q)) = word (entry q)"
proof -
  from pickWeighted_member [OF assms(2)]
  obtain e where e: "fst (pickWeighted (rnd_pick r) now wordPool stats lastWord) = Some e"
    and m: "e \<in> set wordPool" by blast
  from m assms(1) have "parsedWord (word e)" by (simp add: parseLines_words)
  then have tr: "trim (word e) = word e" by (simp add: parsedWord_def)
  from nextQuestion_choice [OF e assms(3)]
  obtain cs where q: "nextQuestion r now wordPool difficulty stats lastWord
        = Inr (\<lparr> entry = e, choices = cs,
                 correctIndex = findIndex (\<lambda>c. word c = word e) cs, mode = ChoiceMode \<rparr>,
               snd (pickWeighted (rnd_pick r) now wordPool stats lastWord), Some (word e))"
    and c: "cs = pickChoices r wordPool e (min 4 (max 2 (int (length wordPool))))
         \<or> (\<exists>vs. similarChoices (rnd_mutation r) (word e) (min 4 (max 2 (int (length wordPool))))
                = Some vs
              \<and> cs = shuffle_choices r (map (variantEntry e) (zip vs [0 ..< length vs])))"
    by blast
  from c have "\<exists>x \<in> set cs. word x = word e"
  proof
    assume "cs = pickChoices r wordPool e (min 4 (max 2 (int (length wordPool))))"
    with pickChoices_has_correct [OF assms(5)] show ?thesis by blast
  next
    assume "\<exists>vs. similarChoices (rnd_mutation r) (word e) (min 4 (max 2 (int (length wordPool))))
                = Some vs
              \<and> cs = shuffle_choices r (map (variantEntry e) (zip vs [0 ..< length vs]))"
    then obtain vs where s: "similarChoices (rnd_mutation r) (word e)
          (min 4 (max 2 (int (length wordPool)))) = Some vs"
      and cs: "cs = shuffle_choices r (map (variantEntry e) (zip vs [0 ..< length vs]))"
      by blast
    from choice_size_bounds [of "length wordPool"]
    have "1 \<le> min 4 (max 2 (int (length wordPool)))" by linarith
    with s have "trim (word e) \<in> set vs" using similarChoices_Some by blast
    with tr have "word e \<in> set (map word (map (variantEntry e) (zip vs [0 ..< length vs])))"
      by (simp only: map_variantEntry_words)
    then have "\<exists>x \<in> set (map (variantEntry e) (zip vs [0 ..< length vs])). word x = word e"
      by auto
    with cs show ?thesis by (simp only: shuffles_set [OF assms(5)])
  qed
  then have "0 \<le> findIndex (\<lambda>c. word c = word e) cs
      \<and> findIndex (\<lambda>c. word c = word e) cs < int (length cs)
      \<and> word (cs ! nat (findIndex (\<lambda>c. word c = word e) cs)) = word e"
    by (rule findIndex_found)
  with q m show ?thesis by simp
qed

text \<open>
  The pool parsed from the lines \<open>focus\<close> and \<open>run\<close>, normal difficulty: the sampler
  picks \<open>focus\<close>, the substitution of its first letter gives the variant \<open>aocus\<close>,
  and after the reversal the correct word is at index 1.
\<close>

theorem correct_index_valid_witness:
  "map_sum (\<lambda>err. err) fst
     (nextQuestion
       \<lparr> rnd_pick = 1 / 2, rnd_mutation = (\<lambda>n. (2 / 3, of_nat n / 40, of_nat n / 40)),
         shuffle_pool = rev, shuffle_choices = rev \<rparr>
       1700000000000
       [\<lparr> entry_id = ''focus-0'', word = ''focus'', hint = None \<rparr>,
        \<lparr> entry_id = ''run-1'', word = ''run'', hint = None \<rparr>]
       Normal Map.empty None)
     = Inr \<lparr> entry = \<lparr> entry_id = ''focus-0'', word = ''focus'', hint = None \<rparr>,
             choices = [\<lparr> entry_id = ''focus-0-var-1'', word = ''aocus'', hint = None \<rparr>,
                        \<lparr> entry_id = ''focus-0-var-0'', word = ''focus'', hint = None \<rparr>],
             correctIndex = 1, mode = ChoiceMode \<rparr>
   \<and> (\<exists>q st lw.
        nextQuestion
          \<lparr> rnd_pick = 1 / 2, rnd_mutation = (\<lambda>n. (2 / 3, of_nat n / 40, of_nat n / 40)),
            shuffle_pool = rev, shuffle_choices = rev \<rparr>
          1700000000000
          [\<lparr> entry_id = ''focus-0'', word = ''focus'', hint = None \<rparr>,
           \<lparr> entry_id = ''run-1'', word = ''run'', hint = None \<rparr>]
          Normal Map.empty None = Inr (q, st, lw)
        \<and> mode q = ChoiceMode
        \<and> entry q \<in> set [\<lparr> entry_id = ''focus-0'', word = ''focus'', hint = None \<rparr>,
                           \<lparr> entry_id = ''run-1'', word = ''run'', hint = None \<rparr>]
        \<and> 0 \<le> correctIndex q \<and> correctIndex q < int (length (choices q))
        \<and> word (choices q ! nat (correctIndex q)) = word (entry q))"
proof -
  let ?r = "\<lparr> rnd_pick = 1 / 2, rnd_mutation = (\<lambda>n. (2 / 3, of_nat n / 40, of_nat n / 40)),
         shuffle_pool = rev, shuffle_choices = rev \<rparr>"
  let ?pool = "[\<lparr> entry_id = ''focus-0'', word = ''focus'', hint = None \<rparr>,
        \<lparr> entry_id = ''run-1'', word = ''run'', hint = None \<rparr>]"
  have p: "?pool = entries (parseLines (''focus'' @ [LF] @ ''run'') True True)"
    by code_simp
  have ne: "?pool \<noteq> []" by simp
  have h: "Normal \<noteq> Hard" by simp
  have s1: "shuffles (shuffle_pool ?r)" by (simp add: shuffles_def)
  have s2: "shuffles (shuffle_choices ?r)" by (simp add: shuffles_def)
  have v: "map_sum (\<lambda>err. err) fst (nextQuestion ?r 1700000000000 ?pool Normal Map.empty None)
     = Inr \<lparr> entry = \<lparr> entry_id = ''focus-0'', word = ''focus'', hint = None \<rparr>,
             choices = [\<lparr> entry_id = ''focus-0-var-1'', word = ''aocus'', hint = None \<rparr>,
                        \<lparr> entry_id = ''focus-0-var-0'', word = ''focus'', hint = None \<rparr>],
             correctIndex = 1, mode = ChoiceMode \<rparr>"
    by code_simp
  from v correct_index_valid [OF p ne h s1 s2, of 1700000000000 Map.empty None]
  show ?thesis by (rule conjI)
qed

lemma choice_count_general:
  assumes "wordPool \<noteq> []" and "difficulty \<noteq> Hard"
    and "shuffles (shuffle_pool r)" and "shuffles (shuffle_choices r)"
  shows "\<exists>q st lw. nextQuestion r now wordPool difficulty stats lastWord = Inr (q, st, lw)
      \<and> mode q = ChoiceMode \<and> entry q \<in> set wordPool
      \<and> (int (length (choices q)) = min 4 (max 2 (int (length wordPool)))
         \<or> int (length (choices q))
             = min (min 4 (max 2 (int (length wordPool))))
                 (1 + int (length (filter (\<lambda>e. word e \<noteq> word (entry q)) wordPool))))"
proof -
  let ?size = "min 4 (max 2 (int (length wordPool)))"
  from pickWeighted_member [OF assms(1)]
  obtain e where e: "fst (pickWeighted (rnd_pick r) now wordPool stats lastWord) = Some e"
    and m: "e \<in> set wordPool" by blast
  have one: "1 \<le> ?size" using choice_size_bounds [of "length wordPool"] by linarith
  from nextQuestion_choice [OF e assms(2)]
  obtain cs where q: "nextQuestion r now wordPool difficulty stats lastWord
        = Inr (\<lparr> entry = e, choices = cs,
                 correctIndex = findIndex (\<lambda>c. word c = word e) cs, mode = ChoiceMode \<rparr>,
               snd (pickWeighted (rnd_pick r) now wordPool stats lastWord), Some (word e))"
    and c: "cs = pickChoices r wordPool e ?size
         \<or> (\<exists>vs. similarChoices (rnd_mutation r) (word e) ?size = Some vs
              \<and> cs = shuffle_choices r (map (variantEntry e) (zip vs [0 ..< length vs])))"
    by blast
  from c have "int (length cs) = ?size
      \<or> int (length cs) = min ?size (1 + int (length (filter (\<lambda>x. word x \<noteq> word e) wordPool)))"
  proof
    assume "cs = pickChoices r wordPool e ?size"
    with pickChoices_length [OF assms(3) assms(4) one, of wordPool e]
    show ?thesis by simp
  next
    assume "\<exists>vs. similarChoices (rnd_mutation r) (word e) ?size = Some vs
              \<and> cs = shuffle_choices r (map (variantEntry e) (zip vs [0 ..< length vs]))"
    then obtain vs where s: "similarChoices (rnd_mutation r) (word e) ?size = Some vs"
      and cs: "cs = shuffle_choices r (map (variantEntry e) (zip vs [0 ..< length vs]))"
      by blast
    from s one have "int (length vs) = ?size" using similarChoices_Some by blast
    with cs show ?thesis by (simp add: shuffles_length [OF assms(4)])
  qed
  with q m show ?thesis by simp
qed

text \<open>
  C5, amended. For a pool of at least two entries whose words are pairwise distinct
  (which the parser guarantees when duplicates are removed, lemma
  \<open>parseLines_distinct\<close>), a choice-mode question has exactly
  \<open>min 4 (max 2 poolSize)\<close> choices.
\<close>

theorem choice_count:
  assumes "2 \<le> length wordPool" and "distinct (map word wordPool)"
    and "difficulty \<noteq> Hard"
    and "shuffles (shuffle_pool r)" and "shuffles (shuffle_choices r)"
  shows "\<exists>q st lw. nextQuestion r now wordPool difficulty stats lastWord = Inr (q, st, lw)
      \<and> mode q = ChoiceMode
      \<and> int (length (choices q)) = min 4 (max 2 (int (length wordPool)))"
proof -
  let ?size = "min 4 (max 2 (int (length wordPool)))"
  from assms(1) have ne: "wordPool \<noteq> []" by auto
  from choice_count_general [OF ne assms(3) assms(4) assms(5), of now stats lastWord]
  obtain q st lw where q: "nextQuestion r now wordPool difficulty stats lastWord = Inr (q, st, lw)"
    and md: "mode q = ChoiceMode" and m: "entry q \<in> set wordPool"
    and c: "int (length (choices q)) = ?size
         \<or> int (length (choices q))
             = min ?size (1 + int (length (filter (\<lambda>e. word e \<noteq> word (entry q)) wordPool)))"
    by blast
  from filter_other_key_length [OF assms(2) m]
  have "1 + int (length (filter (\<lambda>e. word e \<noteq> word (entry q)) wordPool)) = int (length wordPool)"
    by simp
  moreover from assms(1) have "?size \<le> int (length wordPool)"
    using choice_size_bounds [of "length wordPool"] by linarith
  ultimately have "int (length (choices q)) = ?size" using c by linarith
  with q md show ?thesis by blast
qed

text \<open>
  Three distinct words in easy mode, the orders left as they are: three choices.
\<close>

theorem choice_count_witness:
  "\<exists>q st lw.
     nextQuestion
       \<lparr> rnd_pick = 1 / 2, rnd_mutation = (\<lambda>n. (0, 0, 0)),
         shuffle_pool = (\<lambda>xs. xs), shuffle_choices = (\<lambda>xs. xs) \<rparr>
       1700000000000
       [\<lparr> entry_id = ''run-0'', word = ''run'', hint = None \<rparr>,
        \<lparr> entry_id = ''focus-1'', word = ''focus'', hint = None \<rparr>,
        \<lparr> entry_id = ''sprint-2'', word = ''sprint'', hint = None \<rparr>]
       Easy Map.empty None = Inr (q, st, lw)
     \<and> mode q = ChoiceMode \<and> int (length (choices q)) = 3"
proof -
  let ?r = "\<lparr> rnd_pick = 1 / 2, rnd_mutation = (\<lambda>n. (0, 0, 0)),
         shuffle_pool = (\<lambda>xs. xs), shuffle_choices = (\<lambda>xs. xs) \<rparr>"
  let ?pool = "[\<lparr> entry_id = ''run-0'', word = ''run'', hint = None \<rparr>,
        \<lparr> entry_id = ''focus-1'', word = ''focus'', hint = None \<rparr>,
        \<lparr> entry_id = ''sprint-2'', word = ''sprint'', hint = None \<rparr>]"
  have l: "2 \<le> length ?pool" by simp
  have d: "distinct (map word ?pool)" by simp
  have h: "Easy \<noteq> Hard" by simp
  have s1: "shuffles (shuffle_pool ?r)" by (simp add: shuffles_def)
  have s2: "shuffles (shuffle_choices ?r)" by (simp add: shuffles_def)
  have n: "min 4 (max 2 (int (length ?pool))) = 3" by simp
  from choice_count [OF l d h s1 s2, of 1700000000000 Map.empty None]
  show ?thesis unfolding n .
qed

text \<open>
  With duplicates kept, the two lines \<open>run\<close> and \<open>run\<close> give a pool of two entries
  with the same word: the only choice of the question is the correct entry, where
  the sizing rule gives \<open>min 4 (max 2 2) = 2\<close>.
\<close>

theorem choice_count_counterexample:
  "entries (parseLines (''run'' @ [LF] @ ''run'') True False)
     = [\<lparr> entry_id = ''run-0'', word = ''run'', hint = None \<rparr>,
        \<lparr> entry_id = ''run-1'', word = ''run'', hint = None \<rparr>]
   \<and> map_sum (\<lambda>err. err) fst
       (nextQuestion
         \<lparr> rnd_pick = 1 / 2, rnd_mutation = (\<lambda>n. (0, 0, 0)),
           shuffle_pool = (\<lambda>xs. xs), shuffle_choices = (\<lambda>xs. xs) \<rparr>
         1700000000000
         [\<lparr> entry_id = ''run-0'', word = ''run'', hint = None \<rparr>,
          \<lparr> entry_id = ''run-1'', word = ''run'', hint = None \<rparr>]
         Easy Map.empty None)
     = Inr \<lparr> entry = \<lparr> entry_id = ''run-0'', word = ''run'', hint = None \<rparr>,
             choices = [\<lparr> entry_id = ''run-0'', word = ''run'', hint = None \<rparr>],
             correctIndex = 0, mode = ChoiceMode \<rparr>
   \<and> int (length [\<lparr> entry_id = ''run-0'', word = ''run'', hint = None \<rparr>])
       \<noteq> min 4 (max 2 (int (length
             [\<lparr> entry_id = ''run-0'', word = ''run'', hint = None \<rparr>,
              \<lparr> entry_id = ''run-1'', word = ''run'', hint = None \<rparr>])))"
proof (intro conjI)
  show "entries (parseLines (''run'' @ [LF] @ ''run'') True False)
     = [\<lparr> entry_id = ''run-0'', word = ''run'', hint = None \<rparr>,
        \<lparr> entry_id = ''run-1'', word = ''run'', hint = None \<rparr>]"
    by code_simp
  show "map_sum (\<lambda>err. err) fst
       (nextQuestion
         \<lparr> rnd_pick = 1 / 2, rnd_mutation = (\<lambda>n. (0, 0, 0)),
           shuffle_pool = (\<lambda>xs. xs), shuffle_choices = (\<lambda>xs. xs) \<rparr>
         1700000000000
         [\<lparr> entry_id = ''run-0'', word = ''run'', hint = None \<rparr>,
          \<lparr> entry_id = ''run-1'', word = ''run'', hint = None \<rparr>]
         Easy Map.empty None)
     = Inr \<lparr> entry = \<lparr> entry_id = ''run-0'', word = ''run'', hint = None \<rparr>,
             choices = [\<lparr> entry_id = ''run-0'', word = ''run'', hint = None \<rparr>],
             correctIndex = 0, mode = ChoiceMode \<rparr>"
    by code_simp
  show "int (length [\<lparr> entry_id = ''run-0'', word = ''run'', hint = None \<rparr>])
       \<noteq> min 4 (max 2 (int (length
             [\<lparr> entry_id = ''run-0'', word = ''run'', hint = None \<rparr>,
              \<lparr> entry_id = ''run-1'', word = ''run'', hint = None \<rparr>])))"
    by simp
qed

end
